theory Spec2Isabelle
  imports Main "HOL-Library.Word"
begin

section \<open>Data model of the replication manager\<close>

text \<open>
  The embedding follows \<^verbatim>\<open>src/tendisplus/replication/repl_manager.cpp\<close>. Fixed-width
  integers are words; a \<^verbatim>\<open>std::vector\<close> is a list, read with an explicit range check
  (an out-of-range \<^verbatim>\<open>operator[]\<close> is undefined behaviour in C++); a \<^verbatim>\<open>std::map\<close>
  is an association list in iteration (key) order.
\<close>

type_synonym u16 = "16 word"
type_synonym u32 = "32 word"
type_synonym u64 = "64 word"

text \<open>
  \<^verbatim>\<open>SCLOCK::time_point\<close>: a count of clock ticks. The model keeps the count as an integer;
  \<^verbatim>\<open>SCLOCK::time_point::max()\<close> is the largest 64-bit signed count.
\<close>

type_synonym time_point = int

definition time_point_max :: time_point where
  "time_point_max = 2 ^ 63 - 1"

text \<open>\<^verbatim>\<open>std::numeric_limits<uint64_t>::max()\<close> and \<^verbatim>\<open>std::numeric_limits<uint32_t>::max()\<close>.\<close>

definition uint64_max :: u64 where
  "uint64_max = - 1"

definition uint32_max :: u32 where
  "uint32_max = - 1"

text \<open>
  The status codes the manager uses. The enumeration itself is declared outside the two
  source files; \<open>ERR_OTHER\<close> stands for any code a collaborator may hand back.
\<close>

datatype ErrorCodes =
    ERR_OK | ERR_NOTFOUND | ERR_INTERNAL | ERR_EXHAUST
  | ERR_TIMEOUT | ERR_MANUAL | ERR_BUSY | ERR_OTHER nat

text \<open>
  Ways in which a call does not return at all: a failed \<^verbatim>\<open>INVARIANT\<close>, a
  \<^verbatim>\<open>LOG(FATAL)\<close>, or behaviour the C++ standard leaves undefined.
\<close>

datatype abort = INVARIANT_FAILED | LOG_FATAL | UNDEFINED_BEHAVIOUR

datatype ReplState = REPL_NONE | REPL_CONNECT | REPL_TRANSFER | REPL_CONNECTED

datatype StoreMode = STORE_NONE | READ_WRITE | REPLICATE_ONLY

text \<open>
  The states of a full push. The enumeration is declared outside the source files; the
  source names \<open>SUCESS\<close>, the other two states carry the names of the specification.
\<close>

datatype FullPushState = RUNNING | SUCESS | FAILED

text \<open>
  \<^verbatim>\<open>Transaction::TXNID_UNINITED\<close> and \<^verbatim>\<open>Transaction::MIN_VALID_TXNID\<close> are declared outside the
  source files at hand; they are taken as parameters, bundled in one record.
\<close>

record Transaction =
  TXNID_UNINITED :: u64
  MIN_VALID_TXNID :: u64

text \<open>
  The records of the manager, with the fields the scheduling code reads or writes (the
  network client and the listen address of a subscriber, which only the introspection
  prints, are left out). \<open>fs\<close> says whether an archive stream is open.
\<close>

record StoreMeta =
  meta_id :: u32
  syncFromHost :: string
  syncFromPort :: u16
  syncFromId :: u32
  binlogId :: u64
  replState :: ReplState

record SPovStatus =
  s_isRunning :: bool
  sessionId :: u64
  s_nextSchedTime :: time_point
  lastSyncTime :: time_point

record MPovStatus =
  m_isRunning :: bool
  clientId :: u64
  dstStoreId :: u32
  binlogPos :: u64
  m_nextSchedTime :: time_point

record MPovFullPushStatus =
  fp_state :: FullPushState
  fp_binlogPos :: u64
  startTime :: time_point
  endTime :: time_point

record RecycleBinlogStatus =
  r_isRunning :: bool
  r_nextSchedTime :: time_point
  firstBinlogId :: u64
  lastFlushBinlogId :: u64
  fileSeq :: u32
  timestamp :: u64
  fileCreateTime :: time_point
  fileSize :: u64
  fs :: bool

text \<open>
  What the manager reaches through \<^verbatim>\<open>_svr\<close>: the stores (their open/running/empty flags,
  their mode and the ids of the binlog records they retain) and the catalog.
\<close>

record KVStore =
  kv_isOpen :: bool
  kv_isRunning :: bool
  kv_isEmpty :: bool
  kv_mode :: StoreMode
  kv_binlog :: "u64 list"

record ReplManager =
  syncMeta :: "StoreMeta list"
  syncStatus :: "SPovStatus list"
  pushStatus :: "(u64 \<times> MPovStatus) list list"
  fullPushStatus :: "(string \<times> MPovFullPushStatus) list list"
  logRecycStatus :: "RecycleBinlogStatus list"
  connectMasterTimeoutMs :: u64
  svr_stores :: "KVStore list"
  svr_catalog :: "nat \<rightharpoonup> StoreMeta"

definition getKVStoreCount :: "ReplManager \<Rightarrow> nat" where
  "getKVStoreCount m = length (svr_stores m)"

text \<open>
  The sizes \<^verbatim>\<open>startup\<close> establishes (it checks two of them with \<^verbatim>\<open>INVARIANT\<close>): one slot of
  every kind per store.
\<close>

definition sized :: "ReplManager \<Rightarrow> bool" where
  "sized m \<longleftrightarrow>
     length (syncMeta m) = getKVStoreCount m \<and>
     length (syncStatus m) = getKVStoreCount m \<and>
     length (pushStatus m) = getKVStoreCount m \<and>
     length (fullPushStatus m) = getKVStoreCount m \<and>
     length (logRecycStatus m) = getKVStoreCount m"

section \<open>stopStore\<close>

definition stopStore :: "u32 \<Rightarrow> ReplManager \<Rightarrow> abort + (ErrorCodes \<times> ReplManager)" where
  "stopStore storeId m =
     (let i = unat storeId in
      if \<not> i < getKVStoreCount m then Inl INVARIANT_FAILED
      else if \<not> (i < length (syncStatus m) \<and> i < length (logRecycStatus m)
                  \<and> i < length (pushStatus m) \<and> i < length (fullPushStatus m))
        then Inl UNDEFINED_BEHAVIOUR
      else Inr (ERR_OK,
        m\<lparr> syncStatus := (syncStatus m)
              [i := (syncStatus m ! i)\<lparr> s_nextSchedTime := time_point_max \<rparr>],
           logRecycStatus := (logRecycStatus m)
              [i := (logRecycStatus m ! i)\<lparr> r_nextSchedTime := time_point_max \<rparr>],
           pushStatus := (pushStatus m)
              [i := map (\<lambda>(c, mpov). (c, mpov\<lparr> m_nextSchedTime := time_point_max \<rparr>))
                        (pushStatus m ! i)],
           fullPushStatus := (fullPushStatus m)[i := []] \<rparr>))"

section \<open>The controller's scheduling pass\<close>

text \<open>\<^verbatim>\<open>std::chrono::seconds(n)\<close> in ticks of the clock; the clock counts nanoseconds.\<close>

definition seconds :: "int \<Rightarrow> int" where
  "seconds n = n * 1000000000"

text \<open>
  An instant plus a duration. The source adds two 64-bit signed tick counts; a sum
  outside the 64-bit range wraps around in two's complement, as the machine addition
  does.
\<close>

definition plus_ticks :: "time_point \<Rightarrow> int \<Rightarrow> time_point" where
  "plus_ticks t d = (t + d + 2 ^ 63) mod 2 ^ 64 - 2 ^ 63"

text \<open>The jobs a pass hands to the worker pools.\<close>

datatype Pool = fullReceiver | incrChecker | incrPusher | logRecycler

datatype Job =
    slaveSyncRoutine Pool nat
  | masterPushRoutine nat u64
  | recycleBinlogJob nat

record Pass =
  doSth :: bool
  jobs :: "Job list"
  mgr :: ReplManager

text \<open>
  \<^verbatim>\<open>schedSlaveInLock\<close>: one iteration of its loop, for index \<open>i\<close>. The last branch of the source
  is reached by no value of the enumeration; it is kept as written.
\<close>

definition schedSlave_step :: "time_point \<Rightarrow> nat \<Rightarrow> Pass \<Rightarrow> abort + Pass" where
  "schedSlave_step now i p =
     (let m = mgr p in
      if \<not> (i < length (syncStatus m) \<and> i < length (syncMeta m)) then Inl UNDEFINED_BEHAVIOUR
      else
        let st = syncStatus m ! i; meta = syncMeta m ! i in
        if s_isRunning st \<or> now < s_nextSchedTime st \<or> replState meta = REPL_NONE
          then Inr p
        else if replState meta = REPL_CONNECT then
          Inr (p\<lparr> doSth := True,
                  jobs := jobs p @ [slaveSyncRoutine fullReceiver i],
                  mgr := m\<lparr> syncStatus := (syncStatus m)[i := st\<lparr> s_isRunning := True \<rparr>] \<rparr> \<rparr>)
        else if replState meta = REPL_CONNECTED then
          Inr (p\<lparr> doSth := True,
                  jobs := jobs p @ [slaveSyncRoutine incrChecker i],
                  mgr := m\<lparr> syncStatus := (syncStatus m)[i := st\<lparr> s_isRunning := True \<rparr>] \<rparr> \<rparr>)
        else if replState meta = REPL_TRANSFER then Inl LOG_FATAL
        else Inr (p\<lparr> doSth := True \<rparr>))"

fun schedSlave_loop :: "time_point \<Rightarrow> nat list \<Rightarrow> Pass \<Rightarrow> abort + Pass" where
  "schedSlave_loop now [] p = Inr p"
| "schedSlave_loop now (i # is) p =
     (case schedSlave_step now i p of
        Inl a \<Rightarrow> Inl a
      | Inr p' \<Rightarrow> schedSlave_loop now is p')"

definition schedSlaveInLock :: "time_point \<Rightarrow> ReplManager \<Rightarrow> abort + Pass" where
  "schedSlaveInLock now m =
     schedSlave_loop now [0 ..< length (syncStatus m)] \<lparr> doSth = False, jobs = [], mgr = m \<rparr>"

text \<open>
  \<^verbatim>\<open>recycleFullPushStatus\<close>. The source walks each map with a range-based \<^verbatim>\<open>for\<close>, that is
  \<^verbatim>\<open>for (it = begin(); it != end(); ++it) { auto& mpov = *it; ... }\<close>, and inside the body
  calls \<^verbatim>\<open>_fullPushStatus[i].erase(mpov.first)\<close>. Erasing an element of a \<^verbatim>\<open>std::map\<close>
  invalidates the iterators to that element, and the loop then increments exactly that
  iterator: from the first erasure on, the behaviour is undefined. \<open>timedOut\<close> is the
  condition of the \<^verbatim>\<open>if\<close>.
\<close>

definition timedOut :: "time_point \<Rightarrow> MPovFullPushStatus \<Rightarrow> bool" where
  "timedOut now st \<longleftrightarrow> fp_state st = SUCESS \<and> now > plus_ticks (endTime st) (seconds 600)"

fun recycleFullPushStatus_map ::
  "time_point \<Rightarrow> (string \<times> MPovFullPushStatus) list \<Rightarrow> abort + (string \<times> MPovFullPushStatus) list"
where
  "recycleFullPushStatus_map now [] = Inr []"
| "recycleFullPushStatus_map now (mpov # rest) =
     (if timedOut now (snd mpov) then Inl UNDEFINED_BEHAVIOUR
      else (case recycleFullPushStatus_map now rest of
              Inl a \<Rightarrow> Inl a
            | Inr rest' \<Rightarrow> Inr (mpov # rest')))"

fun recycleFullPushStatus_loop ::
  "time_point \<Rightarrow> (string \<times> MPovFullPushStatus) list list
     \<Rightarrow> abort + (string \<times> MPovFullPushStatus) list list"
where
  "recycleFullPushStatus_loop now [] = Inr []"
| "recycleFullPushStatus_loop now (mp # mps) =
     (case recycleFullPushStatus_map now mp of
        Inl a \<Rightarrow> Inl a
      | Inr mp' \<Rightarrow>
          (case recycleFullPushStatus_loop now mps of
             Inl a \<Rightarrow> Inl a
           | Inr mps' \<Rightarrow> Inr (mp' # mps')))"

definition recycleFullPushStatus :: "time_point \<Rightarrow> ReplManager \<Rightarrow> abort + ReplManager" where
  "recycleFullPushStatus now m =
     (case recycleFullPushStatus_loop now (fullPushStatus m) of
        Inl a \<Rightarrow> Inl a
      | Inr f \<Rightarrow> Inr (m\<lparr> fullPushStatus := f \<rparr>))"

text \<open>
  What the loop is written to do, in the words of the specification: drop every entry in
  state \<open>SUCESS\<close> whose end time is more than 600 seconds old and keep the others.
\<close>

definition recycleFullPushStatus_spec :: "time_point \<Rightarrow> ReplManager \<Rightarrow> ReplManager" where
  "recycleFullPushStatus_spec now m =
     m\<lparr> fullPushStatus :=
          map (filter (\<lambda>mpov. \<not> timedOut now (snd mpov))) (fullPushStatus m) \<rparr>"

text \<open>\<^verbatim>\<open>schedMasterInLock\<close>, after the garbage collection: the walk over one push map.\<close>

fun schedMaster_map ::
  "time_point \<Rightarrow> nat \<Rightarrow> (u64 \<times> MPovStatus) list \<Rightarrow> bool \<times> Job list \<times> (u64 \<times> MPovStatus) list"
where
  "schedMaster_map now i [] = (False, [], [])"
| "schedMaster_map now i (mpov # rest) =
     (let (d, js, rest') = schedMaster_map now i rest in
      if m_isRunning (snd mpov) \<or> now < m_nextSchedTime (snd mpov)
        then (d, js, mpov # rest')
      else (True, masterPushRoutine i (fst mpov) # js,
            (fst mpov, (snd mpov)\<lparr> m_isRunning := True \<rparr>) # rest'))"

fun schedMaster_loop :: "time_point \<Rightarrow> nat list \<Rightarrow> Pass \<Rightarrow> abort + Pass" where
  "schedMaster_loop now [] p = Inr p"
| "schedMaster_loop now (i # is) p =
     (let m = mgr p in
      if \<not> i < length (pushStatus m) then Inl UNDEFINED_BEHAVIOUR
      else
        let (d, js, mp') = schedMaster_map now i (pushStatus m ! i) in
        schedMaster_loop now is
          (p\<lparr> doSth := doSth p \<or> d, jobs := jobs p @ js,
              mgr := m\<lparr> pushStatus := (pushStatus m)[i := mp'] \<rparr> \<rparr>))"

definition schedMasterInLock :: "time_point \<Rightarrow> time_point \<Rightarrow> ReplManager \<Rightarrow> abort + Pass" where
  "schedMasterInLock now now' m =
     (case recycleFullPushStatus now' m of
        Inl a \<Rightarrow> Inl a
      | Inr m' \<Rightarrow>
          schedMaster_loop now [0 ..< length (pushStatus m')]
            \<lparr> doSth = False, jobs = [], mgr = m' \<rparr>)"

text \<open>\<^verbatim>\<open>schedRecycLogInLock\<close>.\<close>

fun schedRecycLog_loop :: "time_point \<Rightarrow> nat list \<Rightarrow> Pass \<Rightarrow> abort + Pass" where
  "schedRecycLog_loop now [] p = Inr p"
| "schedRecycLog_loop now (i # is) p =
     (let m = mgr p in
      if \<not> i < length (logRecycStatus m) then Inl UNDEFINED_BEHAVIOUR
      else
        let v = logRecycStatus m ! i in
        if r_isRunning v \<or> now < r_nextSchedTime v then schedRecycLog_loop now is p
        else schedRecycLog_loop now is
          (p\<lparr> doSth := True, jobs := jobs p @ [recycleBinlogJob i],
              mgr := m\<lparr> logRecycStatus := (logRecycStatus m)[i := v\<lparr> r_isRunning := True \<rparr>] \<rparr> \<rparr>))"

definition schedRecycLogInLock :: "time_point \<Rightarrow> ReplManager \<Rightarrow> abort + Pass" where
  "schedRecycLogInLock now m =
     schedRecycLog_loop now [0 ..< length (logRecycStatus m)]
       \<lparr> doSth = False, jobs = [], mgr = m \<rparr>"

text \<open>
  One pass of the \<^verbatim>\<open>while\<close> loop of \<^verbatim>\<open>controlRoutine\<close>, under the central mutex: \<open>now\<close> is read
  once by the loop, \<open>now'\<close> is the second reading that \<^verbatim>\<open>recycleFullPushStatus\<close> takes.
\<close>

definition controlPass :: "time_point \<Rightarrow> time_point \<Rightarrow> ReplManager \<Rightarrow> abort + Pass" where
  "controlPass now now' m =
     (case schedSlaveInLock now m of
        Inl a \<Rightarrow> Inl a
      | Inr p1 \<Rightarrow>
     (case schedMasterInLock now now' (mgr p1) of
        Inl a \<Rightarrow> Inl a
      | Inr p2 \<Rightarrow>
     (case schedRecycLogInLock now (mgr p2) of
        Inl a \<Rightarrow> Inl a
      | Inr p3 \<Rightarrow>
          Inr \<lparr> doSth = doSth p3 \<or> doSth p2 \<or> doSth p1,
                jobs = jobs p1 @ jobs p2 @ jobs p3,
                mgr = mgr p3 \<rparr>)))"

section \<open>recycleBinlog\<close>

text \<open>
  What a run of \<^verbatim>\<open>recycleBinlog\<close> takes from outside the manager's state:
  \<^item> \<open>re_nextSched\<close>: the instant computed on entry (now plus the jittered interval; the
    jitter is floating-point arithmetic on \<^verbatim>\<open>rand()\<close>);
  \<^item> \<open>re_start\<close>: the local \<^verbatim>\<open>uint64_t start\<close> is declared without an initialiser and is
    assigned only inside the locked block; on the paths that return earlier the guard
    reads whatever the variable holds, and that content is this input;
  \<^item> \<open>re_getDb\<close>, \<open>re_createTransaction\<close>, \<open>re_commit\<close>: the error of the call, if it fails;
  \<^item> \<open>re_now\<close>: the clock read on the path where the store is not running;
  \<^item> \<open>re_getCurBinlogFs\<close>, \<open>re_updateCurBinlogFs\<close>: the two archive-file helpers, which
    are not among the sources; the first says whether a stream is returned;
  \<^item> \<open>re_truncate\<close>: the status of \<^verbatim>\<open>truncateBinlogV2\<close>, with the triple it reports.
\<close>

record TruncateBinlogResult =
  newStart :: u64
  written :: u64
  tr_timestamp :: u64

record RecycleEnv =
  re_nextSched :: time_point
  re_start :: u64
  re_getDb :: "ErrorCodes option"
  re_now :: time_point
  re_createTransaction :: "ErrorCodes option"
  re_getCurBinlogFs :: "RecycleBinlogStatus \<Rightarrow> bool \<times> RecycleBinlogStatus"
  re_truncate :: "ErrorCodes + TruncateBinlogResult"
  re_updateCurBinlogFs :: "u64 \<Rightarrow> u64 \<Rightarrow> RecycleBinlogStatus \<Rightarrow> RecycleBinlogStatus"
  re_commit :: "ErrorCodes option"

text \<open>
  Modelled from the spec: \<^verbatim>\<open>KVStore::truncateBinlogV2(start, end, txn, fs)\<close> belongs to the
  store, whose sources are not at hand. The specification says that the store truncates
  the records from \<open>start\<close> strictly below \<open>end\<close> (and copies them to the sink when there
  is one); the model keeps the ids of the records that stay.
\<close>

definition truncateBinlogV2 :: "u64 \<Rightarrow> u64 \<Rightarrow> u64 list \<Rightarrow> u64 list" where
  "truncateBinlogV2 start end' binlog = filter (\<lambda>b. \<not> (start \<le> b \<and> b < end')) binlog"

text \<open>The body of the scoped guard, run on every return of \<^verbatim>\<open>recycleBinlog\<close>.\<close>

definition recycleBinlog_guard ::
  "Transaction \<Rightarrow> bool \<Rightarrow> u64 \<Rightarrow> time_point \<Rightarrow> nat \<Rightarrow> ReplManager \<Rightarrow> abort + ReplManager"
where
  "recycleBinlog_guard T hasError start nextSched i m =
     (if \<not> i < length (logRecycStatus m) then Inl UNDEFINED_BEHAVIOUR
      else
        let v = logRecycStatus m ! i in
        if \<not> r_isRunning v then Inl INVARIANT_FAILED
        else Inr (m\<lparr> logRecycStatus := (logRecycStatus m)
               [i := v\<lparr> r_isRunning := False,
                        r_nextSchedTime :=
                          (if r_nextSchedTime v < nextSched then nextSched
                           else r_nextSchedTime v),
                        firstBinlogId :=
                          (if hasError then TXNID_UNINITED T else start) \<rparr>] \<rparr>))"

text \<open>
  The block under the central mutex: the archive flag, the lower bound and the upper
  bound of the truncation.
\<close>

definition recycleBinlog_saveLogs :: "nat \<Rightarrow> ReplManager \<Rightarrow> bool" where
  "recycleBinlog_saveLogs i m =
     (let saveLogs = (syncFromHost (syncMeta m ! i) \<noteq> []) in
      if syncFromHost (syncMeta m ! i) = [] \<and> length (pushStatus m ! i) = 0 then True
      else saveLogs)"

definition recycleBinlog_end :: "nat \<Rightarrow> ReplManager \<Rightarrow> u64" where
  "recycleBinlog_end i m =
     foldl (\<lambda>end' mpov. min end' (binlogPos (snd mpov)))
       (foldl (\<lambda>end' mpov. min end' (fp_binlogPos (snd mpov))) uint64_max
          (fullPushStatus m ! i))
       (pushStatus m ! i)"

text \<open>The acknowledged positions of all subscribers of store \<open>i\<close>, full-push and incremental.\<close>

definition binlogPositions :: "nat \<Rightarrow> ReplManager \<Rightarrow> u64 set" where
  "binlogPositions i m =
     fp_binlogPos ` snd ` set (fullPushStatus m ! i) \<union> binlogPos ` snd ` set (pushStatus m ! i)"

text \<open>
  The outcome of a run: the manager afterwards, whether the run failed, and the call it
  made to \<^verbatim>\<open>truncateBinlogV2\<close>, if any, as (start, end, sink present).
\<close>

record RecycleRun =
  run_mgr :: ReplManager
  run_hasError :: bool
  run_truncate :: "(u64 \<times> u64 \<times> bool) option"

definition recycleBinlog_exit ::
  "Transaction \<Rightarrow> bool \<Rightarrow> u64 \<Rightarrow> time_point \<Rightarrow> nat \<Rightarrow> (u64 \<times> u64 \<times> bool) option
     \<Rightarrow> ReplManager \<Rightarrow> abort + RecycleRun"
where
  "recycleBinlog_exit T hasError start nextSched i call m =
     (case recycleBinlog_guard T hasError start nextSched i m of
        Inl a \<Rightarrow> Inl a
      | Inr m' \<Rightarrow> Inr \<lparr> run_mgr = m', run_hasError = hasError, run_truncate = call \<rparr>)"

definition recycleBinlog ::
  "Transaction \<Rightarrow> RecycleEnv \<Rightarrow> u32 \<Rightarrow> ReplManager \<Rightarrow> abort + RecycleRun"
where
  "recycleBinlog T env storeId m =
     (let i = unat storeId; nextSched = re_nextSched env in
      case re_getDb env of
        Some e \<Rightarrow> recycleBinlog_exit T True (re_start env) nextSched i None m
      | None \<Rightarrow>
      if \<not> i < length (svr_stores m) then Inl UNDEFINED_BEHAVIOUR
      else if \<not> kv_isRunning (svr_stores m ! i) then
        recycleBinlog_exit T False (re_start env) (plus_ticks (re_now env) (seconds 1)) i None m
      else if \<not> (i < length (syncMeta m) \<and> i < length (pushStatus m)
                  \<and> i < length (logRecycStatus m) \<and> i < length (fullPushStatus m))
        then Inl UNDEFINED_BEHAVIOUR
      else
        let saveLogs = recycleBinlog_saveLogs i m;
            start = firstBinlogId (logRecycStatus m ! i);
            end' = recycleBinlog_end i m
        in
        case re_createTransaction env of
          Some e \<Rightarrow> recycleBinlog_exit T True start nextSched i None m
        | None \<Rightarrow>
        let (fsOk, v1) =
              (if saveLogs then re_getCurBinlogFs env (logRecycStatus m ! i)
               else (False, logRecycStatus m ! i));
            m1 = m\<lparr> logRecycStatus := (logRecycStatus m)[i := v1] \<rparr>
        in
        if saveLogs \<and> \<not> fsOk then recycleBinlog_exit T True start nextSched i None m1
        else
          let call = Some (start, end', fsOk) in
          case re_truncate env of
            Inl e \<Rightarrow> recycleBinlog_exit T True start nextSched i call m1
          | Inr s \<Rightarrow>
          let v2 = re_updateCurBinlogFs env (written s) (tr_timestamp s) v1;
              m2 = m1\<lparr> logRecycStatus := (logRecycStatus m1)[i := v2] \<rparr>
          in
          case re_commit env of
            Some e \<Rightarrow> recycleBinlog_exit T True start nextSched i call m2
          | None \<Rightarrow>
              recycleBinlog_exit T False (newStart s) nextSched i call
                (m2\<lparr> svr_stores := (svr_stores m2)
                      [i := (svr_stores m2 ! i)
                         \<lparr> kv_binlog :=
                             truncateBinlogV2 start end' (kv_binlog (svr_stores m2 ! i)) \<rparr>] \<rparr>))"

section \<open>changeReplSource\<close>

text \<open>
  What a call takes from outside the manager's state: the status of the two store
  lookups (\<open>ce_getDbX\<close> under \<^verbatim>\<open>LOCK_X\<close> in \<^verbatim>\<open>changeReplSource\<close>, \<open>ce_getDb\<close> inside the lock), of
  \<^verbatim>\<open>setStoreMode\<close> and of the catalog's \<^verbatim>\<open>setStoreMeta\<close>, and \<open>ce_yield\<close>: whether a slave job
  that is running when the call starts to wait gives up its slot before the deadline.
  A status is \<open>ERR_OK\<close> when the call succeeds. The status of \<^verbatim>\<open>cancelSession\<close> is only
  logged by the source.
\<close>

record ChangeEnv =
  ce_getDbX :: ErrorCodes
  ce_yield :: bool
  ce_getDb :: ErrorCodes
  ce_setStoreMode :: ErrorCodes
  ce_setStoreMeta :: ErrorCodes

text \<open>
  \<^verbatim>\<open>_cv.wait_for(lk, oldTimeout + 2000 ms, [..] { return !_syncStatus[storeId]->isRunning; })\<close>.
  The wait releases the central mutex; of what the worker that owns the slot does
  meanwhile, the model keeps that it clears \<open>isRunning\<close>. \<open>None\<close> is the timeout.
\<close>

definition waitForYield :: "ChangeEnv \<Rightarrow> nat \<Rightarrow> ReplManager \<Rightarrow> ReplManager option" where
  "waitForYield env i m =
     (if \<not> s_isRunning (syncStatus m ! i) then Some m
      else if ce_yield env then
        Some (m\<lparr> syncStatus := (syncStatus m)
                 [i := (syncStatus m ! i)\<lparr> s_isRunning := False \<rparr>] \<rparr>)
      else None)"

text \<open>
  Modelled from the spec: \<^verbatim>\<open>ServerEntry::setStoreMode(store, mode)\<close> is not among the
  sources; the specification has it set the mode of the store. A failure leaves the
  store as it is.
\<close>

definition setStoreMode :: "ErrorCodes \<Rightarrow> nat \<Rightarrow> StoreMode \<Rightarrow> ReplManager \<Rightarrow> ReplManager" where
  "setStoreMode status i mode m =
     (if status \<noteq> ERR_OK then m
      else m\<lparr> svr_stores := (svr_stores m)[i := (svr_stores m ! i)\<lparr> kv_mode := mode \<rparr>] \<rparr>)"

definition changeReplStateInLock ::
  "ErrorCodes \<Rightarrow> StoreMeta \<Rightarrow> bool \<Rightarrow> ReplManager \<Rightarrow> abort + ReplManager"
where
  "changeReplStateInLock setStoreMeta storeMeta persist m =
     (if persist \<and> setStoreMeta \<noteq> ERR_OK then Inl LOG_FATAL
      else if \<not> unat (meta_id storeMeta) < length (syncMeta m) then Inl UNDEFINED_BEHAVIOUR
      else Inr (m\<lparr> svr_catalog :=
                     (if persist then (svr_catalog m)(unat (meta_id storeMeta) \<mapsto> storeMeta)
                      else svr_catalog m),
                   syncMeta := (syncMeta m)[unat (meta_id storeMeta) := storeMeta] \<rparr>))"

definition changeReplSourceInLock ::
  "Transaction \<Rightarrow> ChangeEnv \<Rightarrow> u32 \<Rightarrow> string \<Rightarrow> u32 \<Rightarrow> u32 \<Rightarrow> ReplManager
     \<Rightarrow> abort + (ErrorCodes \<times> ReplManager)"
where
  "changeReplSourceInLock T env storeId ip port sourceStoreId m =
     (let i = unat storeId;
          m0 = m\<lparr> connectMasterTimeoutMs := (if ip \<noteq> [] then 1000 else 1) \<rparr>
      in
      if \<not> i < length (syncStatus m0) then Inl UNDEFINED_BEHAVIOUR
      else
      case waitForYield env i m0 of
        None \<Rightarrow> Inr (ERR_TIMEOUT, m0)
      | Some m1 \<Rightarrow>
      if s_isRunning (syncStatus m1 ! i) then Inl INVARIANT_FAILED
      else if i \<ge> length (syncMeta m1) then Inr (ERR_INTERNAL, m1)
      else if ce_getDb env \<noteq> ERR_OK then Inr (ce_getDb env, m1)
      else
        let newMeta = syncMeta m1 ! i in
        if ip \<noteq> [] then
          if syncFromHost (syncMeta m1 ! i) \<noteq> [] then Inr (ERR_BUSY, m1)
          else
            let m2 = m1\<lparr> connectMasterTimeoutMs := 1000 \<rparr>;
                m3 = setStoreMode (ce_setStoreMode env) i REPLICATE_ONLY m2
            in
            if ce_setStoreMode env \<noteq> ERR_OK then Inr (ce_setStoreMode env, m3)
            else
              (case changeReplStateInLock (ce_setStoreMeta env)
                      (newMeta\<lparr> syncFromHost := ip, syncFromPort := ucast port,
                                syncFromId := sourceStoreId, replState := REPL_CONNECT,
                                binlogId := TXNID_UNINITED T \<rparr>) True m3 of
                 Inl a \<Rightarrow> Inl a
               | Inr m4 \<Rightarrow> Inr (ERR_OK, m4))
        else
          if syncFromHost newMeta = [] then Inr (ERR_OK, m1)
          else
            let m2 = m1\<lparr> connectMasterTimeoutMs := 1,
                        syncStatus := (syncStatus m1)
                          [i := (syncStatus m1 ! i)\<lparr> sessionId := uint64_max \<rparr>] \<rparr>;
                m3 = setStoreMode (ce_setStoreMode env) i READ_WRITE m2
            in
            if ce_setStoreMode env \<noteq> ERR_OK then Inr (ce_setStoreMode env, m3)
            else if \<not> (port = 0 \<and> sourceStoreId = 0) then Inl INVARIANT_FAILED
            else
              (case changeReplStateInLock (ce_setStoreMeta env)
                      (newMeta\<lparr> syncFromHost := ip, syncFromPort := ucast port,
                                syncFromId := sourceStoreId, replState := REPL_NONE,
                                binlogId := TXNID_UNINITED T \<rparr>) True m3 of
                 Inl a \<Rightarrow> Inl a
               | Inr m4 \<Rightarrow> Inr (ERR_OK, m4)))"

definition changeReplSource ::
  "Transaction \<Rightarrow> ChangeEnv \<Rightarrow> u32 \<Rightarrow> string \<Rightarrow> u32 \<Rightarrow> u32 \<Rightarrow> ReplManager
     \<Rightarrow> abort + (ErrorCodes \<times> ReplManager)"
where
  "changeReplSource T env storeId ip port sourceStoreId m =
     (if ce_getDbX env \<noteq> ERR_OK then Inr (ce_getDbX env, m)
      else if \<not> unat storeId < length (svr_stores m) then Inl UNDEFINED_BEHAVIOUR
      else if \<not> kv_isOpen (svr_stores m ! unat storeId) then Inr (ERR_OK, m)
      else if ip \<noteq> [] \<and> \<not> kv_isEmpty (svr_stores m ! unat storeId) then Inr (ERR_MANUAL, m)
      else
        (case changeReplSourceInLock T env storeId ip port sourceStoreId m of
           Inl a \<Rightarrow> Inl a
         | Inr (s, m') \<Rightarrow> if s \<noteq> ERR_OK then Inr (s, m') else Inr (ERR_OK, m')))"

section \<open>maxDumpFileSeq\<close>

text \<open>
  The directory \<^verbatim>\<open><dumpPath>/<storeId>/\<close> as the function meets it: \<open>dd_create\<close> says that
  creating the missing directories throws nothing; \<open>dd_entries\<close> is what the recursive
  iteration yields, for each entry whether it is a regular file and its path with the
  directory prefix erased, or \<open>None\<close> when the iteration throws.
\<close>

record DumpDir =
  dd_create :: bool
  dd_entries :: "(bool \<times> string) list option"

text \<open>
  The scan for the second and the third dash: the remaining characters, the index \<open>i\<close>
  and the locals \<open>first\<close>, \<open>start\<close>, \<open>end\<close> of the source; the result is (start, end).
\<close>

fun fieldBounds :: "string \<Rightarrow> nat \<Rightarrow> nat \<Rightarrow> nat \<Rightarrow> nat \<Rightarrow> nat \<times> nat" where
  "fieldBounds [] i first start end' = (start, end')"
| "fieldBounds (c # cs) i first start end' =
     (if c = CHR ''-'' then
        (let first' = first + 1;
             start' = (if first' = 2 then i + 1 else start)
         in if first' = 3 then (start', i)
            else fieldBounds cs (i + 1) first' start' end')
      else fieldBounds cs (i + 1) first start end')"

text \<open>
  \<^verbatim>\<open>std::string::substr(pos, n)\<close>: throws when \<open>pos\<close> is beyond the size (\<open>None\<close>), and stops at
  the end of the string otherwise.
\<close>

definition substr :: "string \<Rightarrow> nat \<Rightarrow> nat \<Rightarrow> string option" where
  "substr s pos n = (if pos > length s then None else Some (take n (drop pos s)))"

text \<open>
  \<^verbatim>\<open>relative.substr(start, end - start)\<close>; the difference is taken in \<^verbatim>\<open>size_t\<close>, 64 bits
  wide, and wraps around when no third dash was found (\<open>end\<close> is then 0).
\<close>

definition filenoField :: "string \<Rightarrow> string option" where
  "filenoField relative =
     (let (start, end') = fieldBounds relative 0 0 0 0
      in substr relative start ((end' + 2 ^ 64 - start) mod 2 ^ 64))"

text \<open>
  The loop over the directory entries. \<^verbatim>\<open>::tendisplus::stoul\<close> is declared outside the
  sources and is the parameter \<open>stoul\<close>. Where it fails, the source returns
  \<^verbatim>\<open>fno.value()\<close>, the value of an \<^verbatim>\<open>Expected\<close> that holds none: the model makes that a call
  that does not return. A name that does not begin with \<^verbatim>\<open>binlog\<close> is logged and parsed
  like the others.
\<close>

fun maxDumpFileSeq_loop ::
  "(string \<Rightarrow> ErrorCodes + u64) \<Rightarrow> (bool \<times> string) list \<Rightarrow> u32 \<Rightarrow> abort + (ErrorCodes + u32)"
where
  "maxDumpFileSeq_loop stoul [] maxFno = Inr (Inr maxFno)"
| "maxDumpFileSeq_loop stoul (p # ps) maxFno =
     (if \<not> fst p then maxDumpFileSeq_loop stoul ps maxFno
      else
        (case filenoField (snd p) of
           None \<Rightarrow> Inr (Inl ERR_INTERNAL)
         | Some field \<Rightarrow>
             (case stoul field of
                Inl e \<Rightarrow> Inl UNDEFINED_BEHAVIOUR
              | Inr fno \<Rightarrow>
                  if fno \<ge> ucast uint32_max then Inr (Inl ERR_INTERNAL)
                  else maxDumpFileSeq_loop stoul ps (max maxFno (ucast fno)))))"

definition maxDumpFileSeq ::
  "(string \<Rightarrow> ErrorCodes + u64) \<Rightarrow> DumpDir \<Rightarrow> abort + (ErrorCodes + u32)"
where
  "maxDumpFileSeq stoul dir =
     (if \<not> dd_create dir then Inr (Inl ERR_INTERNAL)
      else
        (case dd_entries dir of
           None \<Rightarrow> Inr (Inl ERR_INTERNAL)
         | Some ps \<Rightarrow> maxDumpFileSeq_loop stoul ps 0))"

text \<open>
  Modelled from the spec: \<^verbatim>\<open>::tendisplus::stoul\<close> (declared in \<^verbatim>\<open>tendisplus/utils/string.h\<close>,
  which is not among the sources) gives what the specification calls the parsed integer
  of a field. The concrete runs below use a decimal reading of it; these are its digits
  and its accumulation.
\<close>

definition digitValue :: "char \<Rightarrow> nat option" where
  "digitValue c =
     (let n = (of_char c :: nat)
      in if of_char CHR ''0'' \<le> n \<and> n \<le> of_char CHR ''9'' then Some (n - of_char CHR ''0'')
         else None)"

fun decimalValue :: "string \<Rightarrow> nat \<Rightarrow> nat option" where
  "decimalValue [] acc = Some acc"
| "decimalValue (c # cs) acc =
     (case digitValue c of
        None \<Rightarrow> None
      | Some d \<Rightarrow> decimalValue cs (10 * acc + d))"

text \<open>
  Modelled from the spec: the instance of \<^verbatim>\<open>::tendisplus::stoul\<close> used for the concrete runs. It
  reads an unsigned decimal numeral that fits 64 bits and fails on everything else, the
  empty string included.
\<close>

definition stoul_decimal :: "string \<Rightarrow> ErrorCodes + u64" where
  "stoul_decimal s =
     (if s = [] then Inl ERR_INTERNAL
      else
        (case decimalValue s 0 of
           None \<Rightarrow> Inl ERR_INTERNAL
         | Some n \<Rightarrow> if n < 2 ^ 64 then Inr (of_nat n) else Inl ERR_INTERNAL))"

text \<open>
  The integer parsed from the name of a directory entry, when the field can be cut out
  and \<open>stoul\<close> accepts it.
\<close>

definition parsedFileno :: "(string \<Rightarrow> ErrorCodes + u64) \<Rightarrow> string \<Rightarrow> u64 option" where
  "parsedFileno stoul relative =
     (case filenoField relative of
        None \<Rightarrow> None
      | Some field \<Rightarrow> (case stoul field of Inl e \<Rightarrow> None | Inr fno \<Rightarrow> Some fno))"

section \<open>startup\<close>

text \<open>
  What \<^verbatim>\<open>startup\<close> takes from outside, per store (\<open>StoreBoot\<close>): the status of the store
  lookup, the clock, the status of \<^verbatim>\<open>setStoreMode\<close>, the store's highest binlog id, the
  dump directory, the status of \<^verbatim>\<open>createTransaction\<close> and the result of
  \<^verbatim>\<open>RepllogCursorV2::getMinBinlog\<close> (binlog id and timestamp); and for the whole call: the
  status of the catalog's \<^verbatim>\<open>getStoreMeta\<close> and \<^verbatim>\<open>setStoreMeta\<close> per store (a \<open>getStoreMeta\<close>
  that reports \<open>ERR_OK\<close> finds what the catalog holds, or nothing) and the status of
  starting the five worker pools (the first failure, if any).
\<close>

record StoreBoot =
  sb_getDb :: ErrorCodes
  sb_now :: time_point
  sb_setStoreMode :: ErrorCodes
  sb_highestBinlogId :: u64
  sb_dumpDir :: DumpDir
  sb_createTransaction :: ErrorCodes
  sb_getMinBinlog :: "ErrorCodes + (u64 \<times> u64)"

record StartupEnv =
  su_getStoreMeta :: "nat \<Rightarrow> ErrorCodes"
  su_setStoreMeta :: "nat \<Rightarrow> ErrorCodes"
  su_pools :: ErrorCodes
  su_store :: "nat \<Rightarrow> StoreBoot"

text \<open>The manager as the constructor leaves it, over the server's stores and catalog.\<close>

definition ReplManager_new :: "KVStore list \<Rightarrow> (nat \<rightharpoonup> StoreMeta) \<Rightarrow> ReplManager" where
  "ReplManager_new stores catalog =
     \<lparr> syncMeta = [], syncStatus = [], pushStatus = [], fullPushStatus = [],
       logRecycStatus = [], connectMasterTimeoutMs = 1000,
       svr_stores = stores, svr_catalog = catalog \<rparr>"

definition getStoreMeta :: "StartupEnv \<Rightarrow> nat \<Rightarrow> ReplManager \<Rightarrow> ErrorCodes + StoreMeta" where
  "getStoreMeta env i m =
     (if su_getStoreMeta env i \<noteq> ERR_OK then Inl (su_getStoreMeta env i)
      else (case svr_catalog m i of None \<Rightarrow> Inl ERR_NOTFOUND | Some meta \<Rightarrow> Inr meta))"

text \<open>The first loop of \<^verbatim>\<open>startup\<close>: load or synthesise the metadata of each store.\<close>

fun startup_metas ::
  "Transaction \<Rightarrow> StartupEnv \<Rightarrow> nat list \<Rightarrow> ReplManager \<Rightarrow> ErrorCodes + ReplManager"
where
  "startup_metas T env [] m = Inr m"
| "startup_metas T env (i # is) m =
     (case getStoreMeta env i m of
        Inr meta \<Rightarrow> startup_metas T env is (m\<lparr> syncMeta := syncMeta m @ [meta] \<rparr>)
      | Inl e \<Rightarrow>
          if e = ERR_NOTFOUND then
            (let pMeta = \<lparr> meta_id = of_nat i, syncFromHost = [], syncFromPort = 0,
                           syncFromId = - 1, binlogId = TXNID_UNINITED T,
                           replState = REPL_NONE \<rparr>
             in if su_setStoreMeta env i \<noteq> ERR_OK then Inl (su_setStoreMeta env i)
                else startup_metas T env is
                       (m\<lparr> svr_catalog := (svr_catalog m)(unat (meta_id pMeta) \<mapsto> pMeta),
                           syncMeta := syncMeta m @ [pMeta] \<rparr>))
          else Inl e)"

text \<open>The body of the last loop of \<^verbatim>\<open>startup\<close>, for store \<open>i\<close>.\<close>

definition startup_store ::
  "Transaction \<Rightarrow> (string \<Rightarrow> ErrorCodes + u64) \<Rightarrow> StoreBoot \<Rightarrow> nat \<Rightarrow> ReplManager
     \<Rightarrow> abort + (ErrorCodes + ReplManager)"
where
  "startup_store T stoul sb i m =
     (if sb_getDb sb \<noteq> ERR_OK then Inr (Inl (sb_getDb sb))
      else if \<not> i < length (svr_stores m) then Inl INVARIANT_FAILED
      else
        let isOpen = kv_isOpen (svr_stores m ! i);
            tp = (if \<not> isOpen then time_point_max else sb_now sb);
            m1 = m\<lparr> syncStatus := syncStatus m @
                       [\<lparr> s_isRunning = False, sessionId = uint64_max,
                          s_nextSchedTime = tp, lastSyncTime = tp \<rparr>],
                     pushStatus := pushStatus m @ [[]],
                     fullPushStatus := fullPushStatus m @ [[]] \<rparr>;
            recBinlogStat = (\<lambda>fileSeq'.
                     \<lparr> r_isRunning = False, r_nextSchedTime = tp,
                       firstBinlogId = TXNID_UNINITED T, lastFlushBinlogId = TXNID_UNINITED T,
                       fileSeq = fileSeq', timestamp = 0, fileCreateTime = tp, fileSize = 0,
                       fs = False \<rparr>)
        in
        if \<not> isOpen then
          Inr (Inr (m1\<lparr> logRecycStatus := logRecycStatus m1 @ [recBinlogStat uint32_max] \<rparr>))
        else if \<not> i < length (syncMeta m1) then Inl UNDEFINED_BEHAVIOUR
        else
          let m2 = (if syncFromHost (syncMeta m1 ! i) = []
                    then setStoreMode (sb_setStoreMode sb) i READ_WRITE m1
                    else (let m' = setStoreMode (sb_setStoreMode sb) i REPLICATE_ONLY m1
                          in m'\<lparr> syncMeta := (syncMeta m')
                                  [i := (syncMeta m' ! i)
                                     \<lparr> binlogId := sb_highestBinlogId sb \<rparr>] \<rparr>))
          in
          if sb_setStoreMode sb \<noteq> ERR_OK then Inr (Inl (sb_setStoreMode sb))
          else
            (case maxDumpFileSeq stoul (sb_dumpDir sb) of
               Inl a \<Rightarrow> Inl a
             | Inr (Inl e) \<Rightarrow> Inr (Inl e)
             | Inr (Inr efileSeq) \<Rightarrow>
                 if sb_createTransaction sb \<noteq> ERR_OK then Inr (Inl (sb_createTransaction sb))
                 else
                   (case sb_getMinBinlog sb of
                      Inr explog \<Rightarrow>
                        Inr (Inr (m2\<lparr> logRecycStatus := logRecycStatus m2 @
                          [(recBinlogStat efileSeq)
                             \<lparr> firstBinlogId := fst explog, timestamp := snd explog,
                               lastFlushBinlogId := TXNID_UNINITED T \<rparr>] \<rparr>))
                    | Inl e \<Rightarrow>
                        if e = ERR_EXHAUST then
                          Inr (Inr (m2\<lparr> logRecycStatus := logRecycStatus m2 @
                            [(recBinlogStat efileSeq)
                               \<lparr> firstBinlogId := MIN_VALID_TXNID T, timestamp := 0,
                                 lastFlushBinlogId := TXNID_UNINITED T \<rparr>] \<rparr>))
                        else Inr (Inl e))))"

fun startup_stores ::
  "Transaction \<Rightarrow> (string \<Rightarrow> ErrorCodes + u64) \<Rightarrow> StartupEnv \<Rightarrow> nat list \<Rightarrow> ReplManager
     \<Rightarrow> abort + (ErrorCodes + ReplManager)"
where
  "startup_stores T stoul env [] m = Inr (Inr m)"
| "startup_stores T stoul env (i # is) m =
     (case startup_store T stoul (su_store env i) i m of
        Inl a \<Rightarrow> Inl a
      | Inr (Inl e) \<Rightarrow> Inr (Inl e)
      | Inr (Inr m') \<Rightarrow> startup_stores T stoul env is m')"

text \<open>
  \<^verbatim>\<open>startup\<close>: a failed start returns its status, a successful one the manager that the
  controller thread is then started on.
\<close>

definition startup ::
  "Transaction \<Rightarrow> (string \<Rightarrow> ErrorCodes + u64) \<Rightarrow> StartupEnv \<Rightarrow> ReplManager
     \<Rightarrow> abort + (ErrorCodes + ReplManager)"
where
  "startup T stoul env m =
     (case startup_metas T env [0 ..< getKVStoreCount m] m of
        Inl e \<Rightarrow> Inr (Inl e)
      | Inr m1 \<Rightarrow>
          if length (syncMeta m1) \<noteq> getKVStoreCount m1 then Inl INVARIANT_FAILED
          else if list_ex (\<lambda>i. i \<noteq> unat (meta_id (syncMeta m1 ! i))) [0 ..< length (syncMeta m1)]
            then Inr (Inl ERR_INTERNAL)
          else if su_pools env \<noteq> ERR_OK then Inr (Inl (su_pools env))
          else
            (case startup_stores T stoul env [0 ..< getKVStoreCount m1] m1 of
               Inl a \<Rightarrow> Inl a
             | Inr (Inl e) \<Rightarrow> Inr (Inl e)
             | Inr (Inr m2) \<Rightarrow>
                 if length (logRecycStatus m2) \<noteq> getKVStoreCount m2 then Inl INVARIANT_FAILED
                 else Inr (Inr m2)))"

section \<open>The states the manager can be in\<close>

text \<open>No metadata, cached or in the catalog, is in state \<open>REPL_TRANSFER\<close>.\<close>

definition noTransfer :: "ReplManager \<Rightarrow> bool" where
  "noTransfer m \<longleftrightarrow>
     (\<forall>meta \<in> set (syncMeta m). replState meta \<noteq> REPL_TRANSFER) \<and>
     (\<forall>meta \<in> ran (svr_catalog m). replState meta \<noteq> REPL_TRANSFER)"

text \<open>
  The managers reachable through \<^verbatim>\<open>startup\<close>, \<^verbatim>\<open>changeReplSource\<close>, \<^verbatim>\<open>stopStore\<close> and passes of
  the controller, whatever the collaborators answer, on a node whose catalog is
  \<open>catalog0\<close> at the first start. A later start (of a new process) is on the catalog as
  the manager left it.
\<close>

inductive reachable ::
  "Transaction \<Rightarrow> (string \<Rightarrow> ErrorCodes + u64) \<Rightarrow> (nat \<rightharpoonup> StoreMeta) \<Rightarrow> ReplManager \<Rightarrow> bool"
  for T :: Transaction and stoul :: "string \<Rightarrow> ErrorCodes + u64"
    and catalog0 :: "nat \<rightharpoonup> StoreMeta"
where
  started:
    "startup T stoul env (ReplManager_new stores catalog0) = Inr (Inr m) \<Longrightarrow>
     reachable T stoul catalog0 m"
| restarted:
    "reachable T stoul catalog0 m \<Longrightarrow>
     startup T stoul env (ReplManager_new stores (svr_catalog m)) = Inr (Inr m') \<Longrightarrow>
     reachable T stoul catalog0 m'"
| changed:
    "reachable T stoul catalog0 m \<Longrightarrow>
     changeReplSource T cenv storeId ip port sourceStoreId m = Inr (status, m') \<Longrightarrow>
     reachable T stoul catalog0 m'"
| stopped:
    "reachable T stoul catalog0 m \<Longrightarrow>
     stopStore storeId m = Inr (status, m') \<Longrightarrow>
     reachable T stoul catalog0 m'"
| passed:
    "reachable T stoul catalog0 m \<Longrightarrow>
     controlPass now now' m = Inr p \<Longrightarrow>
     reachable T stoul catalog0 (mgr p)"

text \<open>
  What a scheduling pass leaves alone: the metadata, the catalog, the stores and the
  number of slots of each kind.
\<close>

definition same_meta :: "ReplManager \<Rightarrow> ReplManager \<Rightarrow> bool" where
  "same_meta m m' \<longleftrightarrow> syncMeta m' = syncMeta m \<and> svr_catalog m' = svr_catalog m \<and>
     svr_stores m' = svr_stores m \<and>
     length (syncStatus m') = length (syncStatus m) \<and>
     length (pushStatus m') = length (pushStatus m) \<and>
     length (fullPushStatus m') = length (fullPushStatus m) \<and>
     length (logRecycStatus m') = length (logRecycStatus m)"

section \<open>Example states\<close>

text \<open>A one-store manager as \<^verbatim>\<open>startup\<close> leaves it on a fresh node.\<close>

definition meta0 :: StoreMeta where
  "meta0 = \<lparr> meta_id = 0, syncFromHost = [], syncFromPort = 0, syncFromId = - 1,
              binlogId = 0, replState = REPL_NONE \<rparr>"

definition spov0 :: SPovStatus where
  "spov0 = \<lparr> s_isRunning = False, sessionId = uint64_max, s_nextSchedTime = 0,
              lastSyncTime = 0 \<rparr>"

definition recyc0 :: RecycleBinlogStatus where
  "recyc0 = \<lparr> r_isRunning = False, r_nextSchedTime = 0, firstBinlogId = 100,
               lastFlushBinlogId = 0, fileSeq = 0, timestamp = 0, fileCreateTime = 0,
               fileSize = 0, fs = False \<rparr>"

definition kv0 :: KVStore where
  "kv0 = \<lparr> kv_isOpen = True, kv_isRunning = True, kv_isEmpty = True,
            kv_mode = READ_WRITE, kv_binlog = [100, 120, 140, 200, 250] \<rparr>"

definition mgr0 :: ReplManager where
  "mgr0 = \<lparr> syncMeta = [meta0], syncStatus = [spov0], pushStatus = [[]],
             fullPushStatus = [[]], logRecycStatus = [recyc0],
             connectMasterTimeoutMs = 1000, svr_stores = [kv0],
             svr_catalog = [0 \<mapsto> meta0] \<rparr>"

text \<open>
  The same store as a master with an incremental subscriber at 140 and a full-push
  subscriber at 200, its recycle job dispatched; and a run in which every collaborator
  succeeds.
\<close>

definition txn0 :: Transaction where
  "txn0 = \<lparr> TXNID_UNINITED = 0, MIN_VALID_TXNID = 1 \<rparr>"

definition mpov0 :: MPovStatus where
  "mpov0 = \<lparr> m_isRunning = False, clientId = 7, dstStoreId = 0, binlogPos = 140,
              m_nextSchedTime = 0 \<rparr>"

definition fpov0 :: MPovFullPushStatus where
  "fpov0 = \<lparr> fp_state = SUCESS, fp_binlogPos = 200, startTime = 0, endTime = 0 \<rparr>"

definition mgr1 :: ReplManager where
  "mgr1 = mgr0\<lparr> pushStatus := [[(7, mpov0)]], fullPushStatus := [[(''node1'', fpov0)]],
                 logRecycStatus := [recyc0\<lparr> r_isRunning := True \<rparr>] \<rparr>"

definition renv0 :: RecycleEnv where
  "renv0 = \<lparr> re_nextSched = 5000, re_start = 7, re_getDb = None, re_now = 4000,
              re_createTransaction = None,
              re_getCurBinlogFs = (\<lambda>v. (True, v\<lparr> fs := True \<rparr>)),
              re_truncate = Inr \<lparr> newStart = 140, written = 2, tr_timestamp = 0 \<rparr>,
              re_updateCurBinlogFs = (\<lambda>w t v. v\<lparr> fileSize := fileSize v + w \<rparr>),
              re_commit = None \<rparr>"

definition run1 :: RecycleRun where
  "run1 = \<lparr> run_mgr = mgr1
              \<lparr> logRecycStatus :=
                  [recyc0\<lparr> r_nextSchedTime := 5000, firstBinlogId := 140, fileSize := 2 \<rparr>],
                svr_stores := [kv0\<lparr> kv_binlog := [140, 200, 250] \<rparr>] \<rparr>,
             run_hasError = False, run_truncate = Some (100, 140, False) \<rparr>"

text \<open>The store of \<open>mgr0\<close> no longer running when its dispatched recycle job starts.\<close>

definition mgr2 :: ReplManager where
  "mgr2 = mgr0\<lparr> logRecycStatus := [recyc0\<lparr> r_isRunning := True \<rparr>],
                 svr_stores := [kv0\<lparr> kv_isRunning := False \<rparr>] \<rparr>"

text \<open>
  The store of \<open>mgr0\<close> attached to a master, its slave job in flight; environments in
  which every collaborator succeeds and the job does or does not yield in time, and one
  in which \<^verbatim>\<open>setStoreMode\<close> fails.
\<close>

definition meta1 :: StoreMeta where
  "meta1 = meta0\<lparr> syncFromHost := ''10.0.0.5'', syncFromPort := 6379, syncFromId := 0,
                  binlogId := 250, replState := REPL_CONNECTED \<rparr>"

definition mgr3 :: ReplManager where
  "mgr3 = mgr0\<lparr> syncMeta := [meta1], syncStatus := [spov0\<lparr> s_isRunning := True \<rparr>],
                 svr_stores := [kv0\<lparr> kv_mode := REPLICATE_ONLY \<rparr>],
                 svr_catalog := [0 \<mapsto> meta1] \<rparr>"

definition cenv_yield :: ChangeEnv where
  "cenv_yield = \<lparr> ce_getDbX = ERR_OK, ce_yield = True, ce_getDb = ERR_OK,
                   ce_setStoreMode = ERR_OK, ce_setStoreMeta = ERR_OK \<rparr>"

definition cenv_busy :: ChangeEnv where
  "cenv_busy = cenv_yield\<lparr> ce_yield := False \<rparr>"

definition cenv_mode :: ChangeEnv where
  "cenv_mode = cenv_yield\<lparr> ce_setStoreMode := ERR_INTERNAL \<rparr>"

text \<open>
  A first start of a node with the one store \<open>kv0\<close> and an empty catalog; the dump
  directory of the store holds two archive files and a sub-directory.
\<close>

definition dir0 :: DumpDir where
  "dir0 = \<lparr> dd_create = True,
             dd_entries = Some [(True, ''binlog-0-0000005-20200101.log''), (False, ''old''),
                                (True, ''binlog-0-0000003-20191231.log'')] \<rparr>"

definition sboot0 :: StoreBoot where
  "sboot0 = \<lparr> sb_getDb = ERR_OK, sb_now = 1000, sb_setStoreMode = ERR_OK,
               sb_highestBinlogId = 250, sb_dumpDir = dir0, sb_createTransaction = ERR_OK,
               sb_getMinBinlog = Inr (100, 42) \<rparr>"

definition senv0 :: StartupEnv where
  "senv0 = \<lparr> su_getStoreMeta = (\<lambda>i. ERR_OK), su_setStoreMeta = (\<lambda>i. ERR_OK),
              su_pools = ERR_OK, su_store = (\<lambda>i. sboot0) \<rparr>"

definition mgrS :: ReplManager where
  "mgrS = \<lparr> syncMeta = [meta0],
             syncStatus = [\<lparr> s_isRunning = False, sessionId = uint64_max,
                             s_nextSchedTime = 1000, lastSyncTime = 1000 \<rparr>],
             pushStatus = [[]], fullPushStatus = [[]],
             logRecycStatus = [\<lparr> r_isRunning = False, r_nextSchedTime = 1000,
                                 firstBinlogId = 100, lastFlushBinlogId = 0, fileSeq = 5,
                                 timestamp = 42, fileCreateTime = 1000, fileSize = 0,
                                 fs = False \<rparr>],
             connectMasterTimeoutMs = 1000, svr_stores = [kv0],
             svr_catalog = [0 \<mapsto> meta0] \<rparr>"

text \<open>The manager \<open>mgrS\<close> after its store has been attached to a master.\<close>

definition metaA :: StoreMeta where
  "metaA = meta0\<lparr> syncFromHost := ''10.0.0.5'', syncFromPort := 6379, syncFromId := 2,
                  replState := REPL_CONNECT \<rparr>"

definition mgrA :: ReplManager where
  "mgrA = mgrS\<lparr> syncMeta := [metaA], svr_stores := [kv0\<lparr> kv_mode := REPLICATE_ONLY \<rparr>],
                 svr_catalog := [0 \<mapsto> metaA] \<rparr>"

text \<open>
  Recycle jobs dispatched on a master without subscribers (\<open>mgr4\<close>) and on a slave
  (\<open>mgr5\<close>).
\<close>

definition mgr4 :: ReplManager where
  "mgr4 = mgr0\<lparr> logRecycStatus := [recyc0\<lparr> r_isRunning := True \<rparr>] \<rparr>"

definition mgr5 :: ReplManager where
  "mgr5 = mgr3\<lparr> pushStatus := [[(7, mpov0)]],
                 logRecycStatus := [recyc0\<lparr> r_isRunning := True \<rparr>] \<rparr>"

text \<open>Environments of \<open>changeReplSource\<close> in which one of the two store lookups fails.\<close>

definition cenv_lockx :: ChangeEnv where
  "cenv_lockx = cenv_yield\<lparr> ce_getDbX := ERR_BUSY \<rparr>"

definition cenv_getdb :: ChangeEnv where
  "cenv_getdb = cenv_yield\<lparr> ce_getDb := ERR_INTERNAL \<rparr>"

text \<open>
  A catalog that holds the metadata of store 0 in state \<open>REPL_TRANSFER\<close>, and one that
  holds it in state \<open>REPL_CONNECTED\<close>; the managers that a start on each of them gives.
\<close>

definition metaT :: StoreMeta where
  "metaT = meta1\<lparr> replState := REPL_TRANSFER \<rparr>"

definition mgrT :: ReplManager where
  "mgrT = mgrS\<lparr> syncMeta := [metaT], svr_stores := [kv0\<lparr> kv_mode := REPLICATE_ONLY \<rparr>],
                 svr_catalog := [0 \<mapsto> metaT] \<rparr>"

definition mgrC :: ReplManager where
  "mgrC = mgrS\<lparr> syncMeta := [meta1], svr_stores := [kv0\<lparr> kv_mode := REPLICATE_ONLY \<rparr>],
                 svr_catalog := [0 \<mapsto> meta1] \<rparr>"

section \<open>Properties\<close>

subsection \<open>stopStore\<close>

text \<open>
  C10. For a store id below the store count (on a manager with one slot of each kind per
  store), \<open>stopStore\<close> returns \<open>ERR_OK\<close> and touches only that store's slots: the slave slot
  and the recycle slot keep every field but \<open>nextSchedTime\<close>, which becomes the maximal
  instant; the push map keeps its keys, in order, and every entry keeps every field but
  \<open>nextSchedTime\<close>, which becomes the maximal instant; the full-push map becomes empty.
  The metadata, the stores (their mode included), the catalog, the connect timeout and
  the slots of every other store are unchanged.
\<close>

theorem stopStore_frame:
  assumes "sized m" and "unat storeId < getKVStoreCount m"
  shows "\<exists>m'. stopStore storeId m = Inr (ERR_OK, m') \<and>
     syncMeta m' = syncMeta m \<and> svr_stores m' = svr_stores m \<and>
     svr_catalog m' = svr_catalog m \<and>
     connectMasterTimeoutMs m' = connectMasterTimeoutMs m \<and>
     sized m' \<and>
     (\<forall>j. j \<noteq> unat storeId \<longrightarrow>
         syncStatus m' ! j = syncStatus m ! j \<and>
         logRecycStatus m' ! j = logRecycStatus m ! j \<and>
         pushStatus m' ! j = pushStatus m ! j \<and>
         fullPushStatus m' ! j = fullPushStatus m ! j) \<and>
     syncStatus m' ! unat storeId =
       (syncStatus m ! unat storeId)\<lparr> s_nextSchedTime := time_point_max \<rparr> \<and>
     logRecycStatus m' ! unat storeId =
       (logRecycStatus m ! unat storeId)\<lparr> r_nextSchedTime := time_point_max \<rparr> \<and>
     map fst (pushStatus m' ! unat storeId) = map fst (pushStatus m ! unat storeId) \<and>
     map snd (pushStatus m' ! unat storeId) =
       map (\<lambda>kv. (snd kv)\<lparr> m_nextSchedTime := time_point_max \<rparr>)
           (pushStatus m ! unat storeId) \<and>
     fullPushStatus m' ! unat storeId = []"
  using assms
  by (auto simp: stopStore_def sized_def getKVStoreCount_def Let_def split_def comp_def)

theorem stopStore_frame_witness:
  "sized mgr0 \<and> unat (0 :: u32) < getKVStoreCount mgr0 \<and>
   (\<exists>m'. stopStore 0 mgr0 = Inr (ERR_OK, m') \<and>
      syncMeta m' = [meta0] \<and> fullPushStatus m' ! 0 = [] \<and>
      s_nextSchedTime (syncStatus m' ! 0) = time_point_max)"
proof -
  have s: "sized mgr0" and n: "unat (0 :: u32) < getKVStoreCount mgr0"
    by (simp_all add: sized_def getKVStoreCount_def mgr0_def)
  from stopStore_frame [OF s n] obtain m' where
    "stopStore 0 mgr0 = Inr (ERR_OK, m')" "syncMeta m' = syncMeta mgr0"
    "fullPushStatus m' ! unat (0 :: u32) = []"
    "syncStatus m' ! unat (0 :: u32) =
       (syncStatus mgr0 ! unat (0 :: u32))\<lparr> s_nextSchedTime := time_point_max \<rparr>"
    by blast
  then show ?thesis using s n by (auto simp: mgr0_def)
qed

subsection \<open>recycleBinlog: the truncation range\<close>

lemma Min_insert_min:
  fixes a :: "'a::linorder"
  assumes "finite S"
  shows "Min (insert (min a b) S) = Min (insert a (insert b S))"
proof (cases "S = {}")
  case True
  then show ?thesis by (simp add: min_def)
next
  case False
  with assms show ?thesis by (simp add: min.assoc)
qed

lemma foldl_min_Min:
  fixes a :: "'a::linorder"
  shows "foldl (\<lambda>e x. min e (f x)) a xs = Min (insert a (f ` set xs))"
proof (induction xs arbitrary: a)
  case Nil
  show ?case by simp
next
  case (Cons x xs)
  then show ?case by (simp add: Min_insert_min)
qed

lemma recycleBinlog_end_Min:
  "recycleBinlog_end i m = Min (insert uint64_max (binlogPositions i m))"
proof -
  let ?F = "fp_binlogPos ` snd ` set (fullPushStatus m ! i)"
  let ?P = "binlogPos ` snd ` set (pushStatus m ! i)"
  have "recycleBinlog_end i m = Min (insert (Min (insert uint64_max ?F)) ?P)"
    by (simp add: recycleBinlog_end_def foldl_min_Min image_image)
  also have "\<dots> = Min (insert uint64_max ?F \<union> ?P)"
  proof (cases "?P = {}")
    case True
    then show ?thesis by simp
  next
    case False
    then show ?thesis
      by (subst Min_Un) (simp_all add: min.commute)
  qed
  finally show ?thesis by (simp add: binlogPositions_def)
qed

lemma uint64_max_top: "(b :: u64) \<le> uint64_max"
  by (simp add: uint64_max_def)

lemma recycleBinlog_end_le:
  "p \<in> binlogPositions i m \<Longrightarrow> recycleBinlog_end i m \<le> p"
  by (simp add: recycleBinlog_end_Min binlogPositions_def)

lemma recycleBinlog_end_nonempty:
  assumes "binlogPositions i m \<noteq> {}"
  shows "recycleBinlog_end i m = Min (binlogPositions i m)"
proof -
  have fin: "finite (binlogPositions i m)" by (simp add: binlogPositions_def)
  have "Min (binlogPositions i m) \<le> uint64_max" by (rule uint64_max_top)
  with fin assms show ?thesis
    by (simp add: recycleBinlog_end_Min min.absorb2)
qed

lemma recycleBinlog_guard_frame:
  assumes "recycleBinlog_guard T hasError start nextSched i m = Inr m'"
  shows "svr_stores m' = svr_stores m" "syncMeta m' = syncMeta m"
    "pushStatus m' = pushStatus m" "fullPushStatus m' = fullPushStatus m"
    "svr_catalog m' = svr_catalog m" "connectMasterTimeoutMs m' = connectMasterTimeoutMs m"
    "i < length (logRecycStatus m)"
    "r_isRunning (logRecycStatus m ! i)"
    "length (logRecycStatus m') = length (logRecycStatus m)"
    "\<not> r_isRunning (logRecycStatus m' ! i)"
    "firstBinlogId (logRecycStatus m' ! i) = (if hasError then TXNID_UNINITED T else start)"
  using assms
  by (auto simp: recycleBinlog_guard_def Let_def split: if_splits)

lemma recycleBinlog_exit_Inr:
  assumes "recycleBinlog_exit T hasError start nextSched i call m = Inr r"
  shows "run_truncate r = call" "run_hasError r = hasError"
    "recycleBinlog_guard T hasError start nextSched i m = Inr (run_mgr r)"
  using assms
  by (auto simp: recycleBinlog_exit_def split: sum.splits)

lemma recycleBinlog_call:
  assumes "recycleBinlog T env storeId m = Inr r"
    and "run_truncate r = Some (s, e, k)"
  shows "s = firstBinlogId (logRecycStatus m ! unat storeId) \<and>
         e = recycleBinlog_end (unat storeId) m \<and>
         k = recycleBinlog_saveLogs (unat storeId) m"
  using assms
  by (auto simp: recycleBinlog_def Let_def split_def
      dest!: recycleBinlog_exit_Inr(1)
      split: option.splits if_splits sum.splits)

lemma recycleBinlog_stores:
  assumes "recycleBinlog T env storeId m = Inr r"
  shows "svr_stores (run_mgr r) = svr_stores m \<or>
         svr_stores (run_mgr r) = (svr_stores m)[unat storeId := (svr_stores m ! unat storeId)
            \<lparr> kv_binlog := truncateBinlogV2 (firstBinlogId (logRecycStatus m ! unat storeId))
                 (recycleBinlog_end (unat storeId) m)
                 (kv_binlog (svr_stores m ! unat storeId)) \<rparr>]"
  using assms
  by (auto simp: recycleBinlog_def Let_def split_def
      dest!: recycleBinlog_exit_Inr(3) recycleBinlog_guard_frame(1)
      split: option.splits if_splits sum.splits)

lemma recycleBinlog_binlog:
  assumes "recycleBinlog T env storeId m = Inr r"
  shows "kv_binlog (svr_stores (run_mgr r) ! unat storeId) =
           kv_binlog (svr_stores m ! unat storeId) \<or>
         kv_binlog (svr_stores (run_mgr r) ! unat storeId) =
           truncateBinlogV2 (firstBinlogId (logRecycStatus m ! unat storeId))
             (recycleBinlog_end (unat storeId) m) (kv_binlog (svr_stores m ! unat storeId))"
proof (cases "unat storeId < length (svr_stores m)")
  case True
  with recycleBinlog_stores [OF assms] show ?thesis by auto
next
  case False
  then have "(svr_stores m)[unat storeId := x] = svr_stores m" for x
    by (simp add: list_update_beyond)
  with recycleBinlog_stores [OF assms] show ?thesis by auto
qed

lemma recycleBinlog_run1: "recycleBinlog txn0 renv0 0 mgr1 = Inr run1"
  by (simp add: recycleBinlog_def mgr1_def mgr0_def renv0_def recyc0_def kv0_def meta0_def
      recycleBinlog_saveLogs_def recycleBinlog_end_def recycleBinlog_exit_def
      recycleBinlog_guard_def truncateBinlogV2_def mpov0_def fpov0_def uint64_max_def
      Let_def txn0_def run1_def)

text \<open>
  C1. In a run of \<open>recycleBinlog\<close> on store \<open>i\<close>, the upper bound is the minimum of
  \<open>uint64_max\<close> and of the positions of all full-push and incremental entries of the store
  (so \<open>uint64_max\<close> when there are none, and the minimum position otherwise); the call to
  the truncation, if the run makes one, has the recycle slot's \<open>firstBinlogId\<close> as start and
  that bound as end; a record that the store held before the run and no longer holds
  after it has its id in [start, end); with at least one subscriber, every record at or
  above the minimum position is still there. The other stores are untouched.
\<close>

theorem recycleBinlog_truncation_range:
  assumes "recycleBinlog T env storeId m = Inr r"
  shows "recycleBinlog_end (unat storeId) m =
           Min (insert uint64_max (binlogPositions (unat storeId) m)) \<and>
         (binlogPositions (unat storeId) m = {} \<longrightarrow>
            recycleBinlog_end (unat storeId) m = uint64_max) \<and>
         (\<forall>s e k. run_truncate r = Some (s, e, k) \<longrightarrow>
            s = firstBinlogId (logRecycStatus m ! unat storeId) \<and>
            e = recycleBinlog_end (unat storeId) m) \<and>
         (\<forall>b \<in> set (kv_binlog (svr_stores m ! unat storeId)).
            b \<notin> set (kv_binlog (svr_stores (run_mgr r) ! unat storeId)) \<longrightarrow>
              firstBinlogId (logRecycStatus m ! unat storeId) \<le> b \<and>
              b < recycleBinlog_end (unat storeId) m) \<and>
         (binlogPositions (unat storeId) m \<noteq> {} \<longrightarrow>
            recycleBinlog_end (unat storeId) m = Min (binlogPositions (unat storeId) m) \<and>
            (\<forall>b \<in> set (kv_binlog (svr_stores m ! unat storeId)).
               Min (binlogPositions (unat storeId) m) \<le> b \<longrightarrow>
                 b \<in> set (kv_binlog (svr_stores (run_mgr r) ! unat storeId)))) \<and>
         (\<forall>j. j \<noteq> unat storeId \<longrightarrow> svr_stores (run_mgr r) ! j = svr_stores m ! j)"
proof -
  let ?i = "unat storeId"
  let ?old = "kv_binlog (svr_stores m ! ?i)"
  let ?new = "kv_binlog (svr_stores (run_mgr r) ! ?i)"
  let ?start = "firstBinlogId (logRecycStatus m ! ?i)"
  let ?end = "recycleBinlog_end ?i m"
  have gone: "?start \<le> b \<and> b < ?end" if "b \<in> set ?old" "b \<notin> set ?new" for b
    using recycleBinlog_binlog [OF assms] that
    by (auto simp: truncateBinlogV2_def)
  have kept: "b \<in> set ?new"
    if "binlogPositions ?i m \<noteq> {}" "b \<in> set ?old" "Min (binlogPositions ?i m) \<le> b" for b
  proof (rule ccontr)
    assume "b \<notin> set ?new"
    with gone that(2) have "b < ?end" by blast
    with recycleBinlog_end_nonempty [OF that(1)] that(3) show False by simp
  qed
  have others: "svr_stores (run_mgr r) ! j = svr_stores m ! j" if "j \<noteq> ?i" for j
    using recycleBinlog_stores [OF assms] that by auto
  have empty: "?end = uint64_max" if "binlogPositions ?i m = {}"
    using that by (simp add: recycleBinlog_end_Min)
  show ?thesis
    using recycleBinlog_end_Min [of ?i m] recycleBinlog_call [OF assms]
      recycleBinlog_end_nonempty [of ?i m] gone kept others empty
    by blast
qed

theorem recycleBinlog_truncation_range_witness:
  "recycleBinlog txn0 renv0 0 mgr1 = Inr run1 \<and>
   binlogPositions 0 mgr1 = {200, 140} \<and>
   recycleBinlog_end 0 mgr1 = 140 \<and>
   run_truncate run1 = Some (100, 140, False) \<and>
   kv_binlog (svr_stores mgr1 ! 0) = [100, 120, 140, 200, 250] \<and>
   kv_binlog (svr_stores (run_mgr run1) ! 0) = [140, 200, 250]"
proof -
  have pos: "binlogPositions 0 mgr1 = {200, 140}"
    by (auto simp: binlogPositions_def mgr1_def mpov0_def fpov0_def)
  have "recycleBinlog_end (unat (0 :: u32)) mgr1 =
          Min (insert uint64_max (binlogPositions (unat (0 :: u32)) mgr1))"
    using recycleBinlog_truncation_range [OF recycleBinlog_run1] by blast
  then have "recycleBinlog_end 0 mgr1 = 140"
    by (simp add: pos uint64_max_def)
  then show ?thesis
    using recycleBinlog_run1 pos
    by (simp add: run1_def mgr1_def mgr0_def kv0_def)
qed

subsection \<open>recycleBinlog: what the guard installs\<close>

lemma recycleBinlog_not_running:
  assumes "re_getDb env = None"
    and "unat storeId < length (svr_stores m)"
    and "\<not> kv_isRunning (svr_stores m ! unat storeId)"
    and "recycleBinlog T env storeId m = Inr r"
  shows "\<not> run_hasError r \<and>
         firstBinlogId (logRecycStatus (run_mgr r) ! unat storeId) = re_start env"
proof -
  from assms have ex: "recycleBinlog_exit T False (re_start env) (plus_ticks (re_now env) (seconds 1))
      (unat storeId) None m = Inr r"
    by (simp add: recycleBinlog_def Let_def)
  from recycleBinlog_exit_Inr(2) [OF ex]
    recycleBinlog_guard_frame(11) [OF recycleBinlog_exit_Inr(3) [OF ex]]
  show ?thesis by simp
qed

text \<open>
  What every return of a run leaves in the recycle slot: \<open>isRunning\<close> is cleared; a failed
  run installs \<open>TXNID_UNINITED\<close>; a run that did not fail installs the new start that the
  truncation reported, or, on the early return for a store that is not running, the
  content of the local \<open>start\<close>.
\<close>

lemma recycleBinlog_exit_installs:
  assumes "recycleBinlog_exit T hasError start nextSched i call m = Inr r"
  shows "\<not> r_isRunning (logRecycStatus (run_mgr r) ! i) \<and> run_hasError r = hasError \<and>
         run_truncate r = call \<and>
         firstBinlogId (logRecycStatus (run_mgr r) ! i) =
           (if hasError then TXNID_UNINITED T else start)"
  using recycleBinlog_exit_Inr [OF assms]
    recycleBinlog_guard_frame(10,11) [OF recycleBinlog_exit_Inr(3) [OF assms]]
  by simp

lemma recycleBinlog_exits:
  assumes "recycleBinlog T env storeId m = Inr r"
  shows "\<not> r_isRunning (logRecycStatus (run_mgr r) ! unat storeId) \<and>
     (run_hasError r \<longrightarrow>
        firstBinlogId (logRecycStatus (run_mgr r) ! unat storeId) = TXNID_UNINITED T) \<and>
     (\<not> run_hasError r \<longrightarrow>
        (\<exists>s. re_truncate env = Inr s \<and> run_truncate r \<noteq> None \<and>
             firstBinlogId (logRecycStatus (run_mgr r) ! unat storeId) = newStart s) \<or>
        (run_truncate r = None \<and> \<not> kv_isRunning (svr_stores m ! unat storeId) \<and>
         firstBinlogId (logRecycStatus (run_mgr r) ! unat storeId) = re_start env))"
  using assms
  by (auto simp: recycleBinlog_def Let_def split_def
      split: option.splits if_splits sum.splits
      dest!: recycleBinlog_exit_installs)

text \<open>
  C2. The run on \<open>mgr2\<close> takes the early return for a store that is not running. It does
  not fail, and the guard installs as \<open>firstBinlogId\<close> the content of the local \<open>start\<close>,
  which no statement has assigned on that path: the slot held 100 and holds 7, the
  value the variable happened to have, afterwards.
\<close>

theorem recycleBinlog_early_return_start:
  "\<exists>r. recycleBinlog txn0 renv0 0 mgr2 = Inr r \<and> \<not> run_hasError r \<and>
        run_truncate r = None \<and>
        \<not> r_isRunning (logRecycStatus (run_mgr r) ! 0) \<and>
        firstBinlogId (logRecycStatus mgr2 ! 0) = 100 \<and>
        firstBinlogId (logRecycStatus (run_mgr r) ! 0) = re_start renv0 \<and>
        re_start renv0 = 7 \<and> TXNID_UNINITED txn0 = 0"
  by (simp add: recycleBinlog_def mgr2_def mgr0_def renv0_def recyc0_def kv0_def
      recycleBinlog_exit_def recycleBinlog_guard_def Let_def txn0_def)

subsection \<open>recycleBinlog: the archive flag\<close>

lemma recycleBinlog_success_call:
  assumes "recycleBinlog T env storeId m = Inr r"
    and "\<not> run_hasError r"
    and "kv_isRunning (svr_stores m ! unat storeId)"
  shows "run_truncate r = Some (firstBinlogId (logRecycStatus m ! unat storeId),
           recycleBinlog_end (unat storeId) m, recycleBinlog_saveLogs (unat storeId) m)"
  using assms
  by (auto simp: recycleBinlog_def Let_def split_def
      split: option.splits if_splits sum.splits
      dest!: recycleBinlog_exit_installs)

lemma recycleBinlog_guard_defined:
  assumes "i < length (logRecycStatus m)" "r_isRunning (logRecycStatus m ! i)"
  shows "\<exists>m'. recycleBinlog_guard T hasError start nextSched i m = Inr m'"
  using assms by (simp add: recycleBinlog_guard_def Let_def)

lemma recycleBinlog_exit_defined:
  assumes "i < length (logRecycStatus m)" "r_isRunning (logRecycStatus m ! i)"
  shows "\<exists>r. recycleBinlog_exit T hasError start nextSched i call m = Inr r \<and>
           run_hasError r = hasError"
  using recycleBinlog_guard_defined [OF assms, of T hasError start nextSched]
  by (auto simp: recycleBinlog_exit_def)

lemma recycleBinlog_succeeds:
  assumes "sized m" "unat storeId < getKVStoreCount m"
    and "kv_isRunning (svr_stores m ! unat storeId)"
    and "r_isRunning (logRecycStatus m ! unat storeId)"
    and "re_getDb env = None" "re_createTransaction env = None" "re_commit env = None"
    and "re_truncate env = Inr s"
    and "\<forall>v. r_isRunning v \<longrightarrow>
           fst (re_getCurBinlogFs env v) \<and> r_isRunning (snd (re_getCurBinlogFs env v))"
    and "\<forall>w t v. r_isRunning v \<longrightarrow> r_isRunning (re_updateCurBinlogFs env w t v)"
  shows "\<exists>r. recycleBinlog T env storeId m = Inr r \<and> \<not> run_hasError r"
proof -
  let ?i = "unat storeId"
  let ?v = "logRecycStatus m ! ?i"
  from assms(1,2) have len: "?i < length (svr_stores m)" "?i < length (syncMeta m)"
    "?i < length (pushStatus m)" "?i < length (logRecycStatus m)"
    "?i < length (fullPushStatus m)"
    by (simp_all add: sized_def getKVStoreCount_def)
  obtain fsOk v1 where g: "(if recycleBinlog_saveLogs ?i m then re_getCurBinlogFs env ?v
      else (False, ?v)) = (fsOk, v1)"
    by (cases "if recycleBinlog_saveLogs ?i m then re_getCurBinlogFs env ?v else (False, ?v)")
  from g assms(4,9) have v1: "r_isRunning v1" "recycleBinlog_saveLogs ?i m \<longrightarrow> fsOk"
    by (auto split: if_splits)
  let ?v2 = "re_updateCurBinlogFs env (written s) (tr_timestamp s) v1"
  from v1(1) assms(10) have v2: "r_isRunning ?v2" by blast
  let ?m3 = "m\<lparr> logRecycStatus := (logRecycStatus m)[?i := ?v2],
       svr_stores := (svr_stores m)[?i := (svr_stores m ! ?i)
          \<lparr> kv_binlog := truncateBinlogV2 (firstBinlogId ?v) (recycleBinlog_end ?i m)
               (kv_binlog (svr_stores m ! ?i)) \<rparr>] \<rparr>"
  have "?i < length (logRecycStatus ?m3)" "r_isRunning (logRecycStatus ?m3 ! ?i)"
    using len v2 by simp_all
  from recycleBinlog_exit_defined [OF this, of T False "newStart s" "re_nextSched env"
      "Some (firstBinlogId ?v, recycleBinlog_end ?i m, fsOk)"]
  obtain r where r: "recycleBinlog_exit T False (newStart s) (re_nextSched env) ?i
      (Some (firstBinlogId ?v, recycleBinlog_end ?i m, fsOk)) ?m3 = Inr r" "\<not> run_hasError r"
    by auto
  have "recycleBinlog T env storeId m = Inr r"
    using assms(3,5-8) len g v1(2) r(1)
    by (auto simp: recycleBinlog_def Let_def)
  with r(2) show ?thesis by blast
qed

text \<open>
  C3. The archive flag of a run on store \<open>i\<close> is true exactly when the store has a source
  host, or has none and no incremental subscriber. A run that reaches the truncation
  hands it a sink exactly when the flag is true; every run on a running store that does
  not fail has made the truncation call, with the slot's \<open>firstBinlogId\<close>, the bound and
  the flag as sink; and when the collaborators succeed (and the archive-file helpers
  return a stream and leave the slot's \<open>isRunning\<close> alone) the run does not fail. So a
  slave archives, a master without incremental subscribers archives, and a master with
  one truncates without a sink.
\<close>

theorem recycleBinlog_archive_flag:
  "(recycleBinlog_saveLogs (unat storeId) m \<longleftrightarrow>
      syncFromHost (syncMeta m ! unat storeId) \<noteq> [] \<or>
      (syncFromHost (syncMeta m ! unat storeId) = [] \<and> pushStatus m ! unat storeId = [])) \<and>
   (\<forall>r s e k. recycleBinlog T env storeId m = Inr r \<longrightarrow> run_truncate r = Some (s, e, k) \<longrightarrow>
      (k \<longleftrightarrow> recycleBinlog_saveLogs (unat storeId) m)) \<and>
   (\<forall>r. recycleBinlog T env storeId m = Inr r \<longrightarrow> \<not> run_hasError r \<longrightarrow>
      kv_isRunning (svr_stores m ! unat storeId) \<longrightarrow>
      run_truncate r = Some (firstBinlogId (logRecycStatus m ! unat storeId),
        recycleBinlog_end (unat storeId) m, recycleBinlog_saveLogs (unat storeId) m)) \<and>
   (sized m \<and> unat storeId < getKVStoreCount m \<and>
    kv_isRunning (svr_stores m ! unat storeId) \<and>
    r_isRunning (logRecycStatus m ! unat storeId) \<and>
    re_getDb env = None \<and> re_createTransaction env = None \<and> re_commit env = None \<and>
    (\<exists>s. re_truncate env = Inr s) \<and>
    (\<forall>v. r_isRunning v \<longrightarrow>
       fst (re_getCurBinlogFs env v) \<and> r_isRunning (snd (re_getCurBinlogFs env v))) \<and>
    (\<forall>w t v. r_isRunning v \<longrightarrow> r_isRunning (re_updateCurBinlogFs env w t v)) \<longrightarrow>
    (\<exists>r. recycleBinlog T env storeId m = Inr r \<and> \<not> run_hasError r \<and>
       run_truncate r = Some (firstBinlogId (logRecycStatus m ! unat storeId),
         recycleBinlog_end (unat storeId) m, recycleBinlog_saveLogs (unat storeId) m)))"
proof -
  have flag: "recycleBinlog_saveLogs (unat storeId) m \<longleftrightarrow>
      syncFromHost (syncMeta m ! unat storeId) \<noteq> [] \<or>
      (syncFromHost (syncMeta m ! unat storeId) = [] \<and> pushStatus m ! unat storeId = [])"
    by (auto simp: recycleBinlog_saveLogs_def)
  have sink: "k \<longleftrightarrow> recycleBinlog_saveLogs (unat storeId) m"
    if "recycleBinlog T env storeId m = Inr r" "run_truncate r = Some (s, e, k)" for r s e k
    using recycleBinlog_call [OF that] by simp
  have call: "run_truncate r = Some (firstBinlogId (logRecycStatus m ! unat storeId),
        recycleBinlog_end (unat storeId) m, recycleBinlog_saveLogs (unat storeId) m)"
    if "recycleBinlog T env storeId m = Inr r" "\<not> run_hasError r"
      "kv_isRunning (svr_stores m ! unat storeId)" for r
    using that by (rule recycleBinlog_success_call)
  have total: "\<exists>r. recycleBinlog T env storeId m = Inr r \<and> \<not> run_hasError r \<and>
       run_truncate r = Some (firstBinlogId (logRecycStatus m ! unat storeId),
         recycleBinlog_end (unat storeId) m, recycleBinlog_saveLogs (unat storeId) m)"
    if "sized m" "unat storeId < getKVStoreCount m"
      "kv_isRunning (svr_stores m ! unat storeId)"
      "r_isRunning (logRecycStatus m ! unat storeId)"
      "re_getDb env = None" "re_createTransaction env = None" "re_commit env = None"
      "\<exists>s. re_truncate env = Inr s"
      "\<forall>v. r_isRunning v \<longrightarrow>
         fst (re_getCurBinlogFs env v) \<and> r_isRunning (snd (re_getCurBinlogFs env v))"
      "\<forall>w t v. r_isRunning v \<longrightarrow> r_isRunning (re_updateCurBinlogFs env w t v)"
  proof -
    from that(8) obtain s where s: "re_truncate env = Inr s" by blast
    from recycleBinlog_succeeds [OF that(1-7) s that(9,10), of T]
    obtain r where r: "recycleBinlog T env storeId m = Inr r" "\<not> run_hasError r" by blast
    from call [OF r that(3)] r show ?thesis by blast
  qed
  from flag sink call total show ?thesis by blast
qed

lemma renv0_helpers:
  "\<forall>v. r_isRunning v \<longrightarrow>
     fst (re_getCurBinlogFs renv0 v) \<and> r_isRunning (snd (re_getCurBinlogFs renv0 v))"
  "\<forall>w t v. r_isRunning v \<longrightarrow> r_isRunning (re_updateCurBinlogFs renv0 w t v)"
  "re_getDb renv0 = None" "re_createTransaction renv0 = None" "re_commit renv0 = None"
  "\<exists>s. re_truncate renv0 = Inr s"
  by (simp_all add: renv0_def)

theorem recycleBinlog_archive_flag_witness:
  "(\<exists>r. recycleBinlog txn0 renv0 0 mgr4 = Inr r \<and> \<not> run_hasError r \<and>
        run_truncate r = Some (100, uint64_max, True)) \<and>
   (\<exists>r. recycleBinlog txn0 renv0 0 mgr5 = Inr r \<and> \<not> run_hasError r \<and>
        run_truncate r = Some (100, 140, True)) \<and>
   recycleBinlog txn0 renv0 0 mgr1 = Inr run1 \<and> \<not> run_hasError run1 \<and>
   run_truncate run1 = Some (100, 140, False)"
proof -
  have m4: "sized mgr4" "unat (0 :: u32) < getKVStoreCount mgr4"
    "kv_isRunning (svr_stores mgr4 ! unat (0 :: u32))"
    "r_isRunning (logRecycStatus mgr4 ! unat (0 :: u32))"
    by (simp_all add: mgr4_def mgr0_def sized_def getKVStoreCount_def kv0_def)
  have v4: "firstBinlogId (logRecycStatus mgr4 ! unat (0 :: u32)) = 100"
    "recycleBinlog_end (unat (0 :: u32)) mgr4 = uint64_max"
    "recycleBinlog_saveLogs (unat (0 :: u32)) mgr4 = True"
    by (simp_all add: mgr4_def mgr0_def recyc0_def recycleBinlog_end_def
        recycleBinlog_saveLogs_def meta0_def)
  note t4 = recycleBinlog_archive_flag [of 0 mgr4 txn0 renv0,
      THEN conjunct2, THEN conjunct2, THEN conjunct2, THEN mp]
  have a: "\<exists>r. recycleBinlog txn0 renv0 0 mgr4 = Inr r \<and> \<not> run_hasError r \<and>
        run_truncate r = Some (100, uint64_max, True)"
    using t4 [OF conjI [OF m4(1) conjI [OF m4(2) conjI [OF m4(3) conjI [OF m4(4)
      conjI [OF renv0_helpers(3) conjI [OF renv0_helpers(4) conjI [OF renv0_helpers(5)
      conjI [OF renv0_helpers(6) conjI [OF renv0_helpers(1) renv0_helpers(2)]]]]]]]]]]
    unfolding v4 .
  have m5: "sized mgr5" "unat (0 :: u32) < getKVStoreCount mgr5"
    "kv_isRunning (svr_stores mgr5 ! unat (0 :: u32))"
    "r_isRunning (logRecycStatus mgr5 ! unat (0 :: u32))"
    by (simp_all add: mgr5_def mgr3_def mgr0_def sized_def getKVStoreCount_def kv0_def)
  have v5: "firstBinlogId (logRecycStatus mgr5 ! unat (0 :: u32)) = 100"
    "recycleBinlog_end (unat (0 :: u32)) mgr5 = 140"
    "recycleBinlog_saveLogs (unat (0 :: u32)) mgr5 = True"
    by (simp_all add: mgr5_def mgr3_def mgr0_def recyc0_def recycleBinlog_end_def
        recycleBinlog_saveLogs_def meta1_def meta0_def mpov0_def uint64_max_def)
  note t5 = recycleBinlog_archive_flag [of 0 mgr5 txn0 renv0,
      THEN conjunct2, THEN conjunct2, THEN conjunct2, THEN mp]
  have b: "\<exists>r. recycleBinlog txn0 renv0 0 mgr5 = Inr r \<and> \<not> run_hasError r \<and>
        run_truncate r = Some (100, 140, True)"
    using t5 [OF conjI [OF m5(1) conjI [OF m5(2) conjI [OF m5(3) conjI [OF m5(4)
      conjI [OF renv0_helpers(3) conjI [OF renv0_helpers(4) conjI [OF renv0_helpers(5)
      conjI [OF renv0_helpers(6) conjI [OF renv0_helpers(1) renv0_helpers(2)]]]]]]]]]]
    unfolding v5 .
  have c: "\<not> run_hasError run1" "run_truncate run1 = Some (100, 140, False)"
    by (simp_all add: run1_def)
  from a b c recycleBinlog_run1 show ?thesis by blast
qed

subsection \<open>recycleFullPushStatus\<close>

text \<open>
  The sum in the condition wraps around: an entry in state \<open>SUCESS\<close> whose end time lies
  within 600 seconds of the largest instant is due at every instant of a running clock.
\<close>

lemma timedOut_wraps:
  assumes "fp_state st = SUCESS" and "endTime st = time_point_max" and "0 \<le> now"
  shows "timedOut now st"
  using assms by (simp add: timedOut_def plus_ticks_def seconds_def time_point_max_def)

lemma recycleFullPushStatus_map_Inr:
  "recycleFullPushStatus_map now mp = Inr mp' \<Longrightarrow>
     mp' = mp \<and> (\<forall>mpov \<in> set mp. \<not> timedOut now (snd mpov))"
  by (induction mp arbitrary: mp') (auto split: if_splits sum.splits)

lemma recycleFullPushStatus_map_keep:
  "(\<forall>mpov \<in> set mp. \<not> timedOut now (snd mpov)) \<Longrightarrow> recycleFullPushStatus_map now mp = Inr mp"
  by (induction mp) auto

lemma recycleFullPushStatus_loop_Inr:
  "recycleFullPushStatus_loop now mps = Inr mps' \<Longrightarrow>
     mps' = mps \<and> (\<forall>mp \<in> set mps. \<forall>mpov \<in> set mp. \<not> timedOut now (snd mpov))"
  by (induction mps arbitrary: mps')
     (auto split: sum.splits dest: recycleFullPushStatus_map_Inr)

lemma recycleFullPushStatus_loop_keep:
  "(\<forall>mp \<in> set mps. \<forall>mpov \<in> set mp. \<not> timedOut now (snd mpov)) \<Longrightarrow>
     recycleFullPushStatus_loop now mps = Inr mps"
  by (induction mps) (auto simp: recycleFullPushStatus_map_keep)

lemma recycleFullPushStatus_Inr:
  "recycleFullPushStatus now m = Inr m' \<Longrightarrow> m' = m"
  by (auto simp: recycleFullPushStatus_def split: sum.splits
      dest: recycleFullPushStatus_loop_Inr)

lemma recycleFullPushStatus_nothing_due:
  assumes "\<forall>mp \<in> set (fullPushStatus m). \<forall>mpov \<in> set mp. \<not> timedOut now (snd mpov)"
  shows "recycleFullPushStatus now m = Inr m"
    and "recycleFullPushStatus_spec now m = m"
proof -
  show "recycleFullPushStatus now m = Inr m"
    using assms by (simp add: recycleFullPushStatus_def recycleFullPushStatus_loop_keep)
  have "map (filter (\<lambda>mpov. \<not> timedOut now (snd mpov))) (fullPushStatus m) = fullPushStatus m"
    using assms by (intro map_idI) (simp add: filter_id_conv)
  then show "recycleFullPushStatus_spec now m = m"
    by (simp add: recycleFullPushStatus_spec_def)
qed

lemma recycleFullPushStatus_map_Inl:
  "recycleFullPushStatus_map now mp = Inl a \<Longrightarrow> a = UNDEFINED_BEHAVIOUR"
  by (induction mp) (auto split: if_splits sum.splits)

lemma recycleFullPushStatus_loop_Inl:
  "recycleFullPushStatus_loop now mps = Inl a \<Longrightarrow> a = UNDEFINED_BEHAVIOUR"
  by (induction mps) (auto split: sum.splits dest: recycleFullPushStatus_map_Inl)

lemma recycleFullPushStatus_Inl:
  "recycleFullPushStatus now m = Inl a \<Longrightarrow> a = UNDEFINED_BEHAVIOUR"
  by (auto simp: recycleFullPushStatus_def split: sum.splits
      dest: recycleFullPushStatus_loop_Inl)

lemma recycleFullPushStatus_due:
  assumes "\<exists>mp \<in> set (fullPushStatus m). \<exists>mpov \<in> set mp. timedOut now (snd mpov)"
  shows "recycleFullPushStatus now m = Inl UNDEFINED_BEHAVIOUR"
proof (cases "recycleFullPushStatus now m")
  case (Inl a)
  then show ?thesis
    by (auto simp: recycleFullPushStatus_def split: sum.splits
        dest: recycleFullPushStatus_loop_Inl)
next
  case (Inr m')
  then have "\<forall>mp \<in> set (fullPushStatus m). \<forall>mpov \<in> set mp. \<not> timedOut now (snd mpov)"
    by (auto simp: recycleFullPushStatus_def split: sum.splits
        dest: recycleFullPushStatus_loop_Inr)
  with assms show ?thesis by blast
qed

text \<open>
  C8. On \<open>mgr1\<close>, whose one full-push entry is in state \<open>SUCESS\<close> with end time 0, a pass at
  601 seconds finds the entry due. The entry is what the specification removes; the loop
  of the source erases it under its own iterator and then advances that iterator, which
  is undefined behaviour.
\<close>

theorem recycleFullPushStatus_erases_under_iterator:
  "timedOut (seconds 601) (snd (hd (fullPushStatus mgr1 ! 0))) \<and>
   fullPushStatus (recycleFullPushStatus_spec (seconds 601) mgr1) = [[]] \<and>
   recycleFullPushStatus (seconds 601) mgr1 = Inl UNDEFINED_BEHAVIOUR"
  by (simp add: recycleFullPushStatus_def recycleFullPushStatus_spec_def timedOut_def
      plus_ticks_def seconds_def mgr1_def mgr0_def fpov0_def)

subsection \<open>changeReplSource: the wait times out\<close>

text \<open>
  C4 fails as stated: on \<open>mgr3\<close> (store 0 attached, its slave job running, connect timeout
  1000) a detach whose wait times out returns \<open>ERR_TIMEOUT\<close> and leaves the connect
  timeout at 1, so the manager is not what it was before the call.
\<close>

theorem changeReplSource_timeout_counterexample:
  "changeReplSource txn0 cenv_busy 0 [] 0 0 mgr3 =
     Inr (ERR_TIMEOUT, mgr3\<lparr> connectMasterTimeoutMs := 1 \<rparr>) \<and>
   mgr3\<lparr> connectMasterTimeoutMs := 1 \<rparr> \<noteq> mgr3"
proof -
  have "connectMasterTimeoutMs (mgr3\<lparr> connectMasterTimeoutMs := 1 \<rparr>)
          \<noteq> connectMasterTimeoutMs mgr3"
    by (simp add: mgr3_def mgr0_def)
  then have "mgr3\<lparr> connectMasterTimeoutMs := 1 \<rparr> \<noteq> mgr3"
    by metis
  then show ?thesis
    by (simp add: changeReplSource_def changeReplSourceInLock_def waitForYield_def Let_def
        mgr3_def mgr0_def cenv_busy_def cenv_yield_def kv0_def spov0_def)
qed

text \<open>
  C4, amended. When the call reaches the wait (the store is found and open, and on an
  attach it is empty) and the wait times out (the slave job of the store is running and
  does not yield before the deadline), \<open>changeReplSource\<close> returns \<open>ERR_TIMEOUT\<close> and the
  manager is the one before the call except for the connect timeout, which the call set
  before waiting: 1000 on an attach, 1 on a detach. The metadata, the store mode, the
  slave slot and every other field are unchanged.
\<close>

theorem changeReplSource_timeout:
  assumes "ce_getDbX env = ERR_OK"
    and "unat storeId < length (svr_stores m)"
    and "kv_isOpen (svr_stores m ! unat storeId)"
    and "ip = [] \<or> kv_isEmpty (svr_stores m ! unat storeId)"
    and "unat storeId < length (syncStatus m)"
    and "s_isRunning (syncStatus m ! unat storeId)"
    and "\<not> ce_yield env"
  shows "changeReplSource T env storeId ip port sourceStoreId m =
           Inr (ERR_TIMEOUT, m\<lparr> connectMasterTimeoutMs := (if ip \<noteq> [] then 1000 else 1) \<rparr>)"
  using assms
  by (auto simp: changeReplSource_def changeReplSourceInLock_def waitForYield_def Let_def)

theorem changeReplSource_timeout_witness:
  "ce_getDbX cenv_busy = ERR_OK \<and> unat (0 :: u32) < length (svr_stores mgr3) \<and>
   kv_isOpen (svr_stores mgr3 ! 0) \<and> kv_isEmpty (svr_stores mgr3 ! 0) \<and>
   s_isRunning (syncStatus mgr3 ! 0) \<and> \<not> ce_yield cenv_busy \<and>
   changeReplSource txn0 cenv_busy 0 ''10.0.0.9'' 6379 0 mgr3 =
     Inr (ERR_TIMEOUT, mgr3\<lparr> connectMasterTimeoutMs := 1000 \<rparr>)"
proof -
  have h: "ce_getDbX cenv_busy = ERR_OK" "unat (0 :: u32) < length (svr_stores mgr3)"
    "kv_isOpen (svr_stores mgr3 ! unat (0 :: u32))"
    "''10.0.0.9'' = [] \<or> kv_isEmpty (svr_stores mgr3 ! unat (0 :: u32))"
    "unat (0 :: u32) < length (syncStatus mgr3)"
    "s_isRunning (syncStatus mgr3 ! unat (0 :: u32))" "\<not> ce_yield cenv_busy"
    by (simp_all add: cenv_busy_def cenv_yield_def mgr3_def mgr0_def kv0_def spov0_def)
  from changeReplSource_timeout [OF h, of txn0 6379 0] h show ?thesis
    by simp
qed

subsection \<open>changeReplSource: detaching a detached store\<close>

text \<open>
  C5 fails as stated: on \<open>mgr0\<close> (store 0 open, detached and idle, connect timeout 1000 as
  the constructor sets it) the call returns \<open>ERR_OK\<close> and has set the connect timeout
  to 1.
\<close>

theorem changeReplSource_detached_counterexample:
  "changeReplSource txn0 cenv_yield 0 [] 0 0 mgr0 =
     Inr (ERR_OK, mgr0\<lparr> connectMasterTimeoutMs := 1 \<rparr>) \<and>
   mgr0\<lparr> connectMasterTimeoutMs := 1 \<rparr> \<noteq> mgr0"
proof -
  have "connectMasterTimeoutMs (mgr0\<lparr> connectMasterTimeoutMs := 1 \<rparr>)
          \<noteq> connectMasterTimeoutMs mgr0"
    by (simp add: mgr0_def)
  then have "mgr0\<lparr> connectMasterTimeoutMs := 1 \<rparr> \<noteq> mgr0"
    by metis
  then show ?thesis
    by (simp add: changeReplSource_def changeReplSourceInLock_def waitForYield_def Let_def
        mgr0_def cenv_yield_def kv0_def spov0_def meta0_def)
qed

text \<open>
  C5, amended. For a store that is found, open and detached, and whose slave slot is
  idle or yields within the wait, \<open>changeReplSource\<close> with an empty host, port 0 and source
  store 0 returns \<open>ERR_OK\<close>; the manager afterwards is the one before the call with the
  connect timeout set to 1. The call itself writes nothing else; where the slot was
  running, its \<open>isRunning\<close> is false afterwards because the worker yielded, which is the
  premise. For an idle slot nothing but the connect timeout differs: the metadata, the
  slave slot, the store mode and the rest are unchanged.
\<close>

theorem changeReplSource_detached_noop:
  assumes "ce_getDbX env = ERR_OK" and "ce_getDb env = ERR_OK"
    and "sized m" and "unat storeId < getKVStoreCount m"
    and "kv_isOpen (svr_stores m ! unat storeId)"
    and "syncFromHost (syncMeta m ! unat storeId) = []"
    and "\<not> s_isRunning (syncStatus m ! unat storeId) \<or> ce_yield env"
  shows "changeReplSource T env storeId [] 0 0 m =
           Inr (ERR_OK, m\<lparr> connectMasterTimeoutMs := 1,
                            syncStatus := (syncStatus m)[unat storeId :=
                              (syncStatus m ! unat storeId)\<lparr> s_isRunning := False \<rparr>] \<rparr>) \<and>
         (\<not> s_isRunning (syncStatus m ! unat storeId) \<longrightarrow>
            changeReplSource T env storeId [] 0 0 m =
              Inr (ERR_OK, m\<lparr> connectMasterTimeoutMs := 1 \<rparr>))"
proof (cases "s_isRunning (syncStatus m ! unat storeId)")
  case True
  with assms show ?thesis
    by (simp add: changeReplSource_def changeReplSourceInLock_def waitForYield_def Let_def
        sized_def getKVStoreCount_def)
next
  case False
  then have "(syncStatus m ! unat storeId)\<lparr> s_isRunning := False \<rparr> = syncStatus m ! unat storeId"
    by simp
  then have "(syncStatus m)[unat storeId :=
      (syncStatus m ! unat storeId)\<lparr> s_isRunning := False \<rparr>] = syncStatus m"
    by (simp add: list_update_id)
  with False assms show ?thesis
    by (simp add: changeReplSource_def changeReplSourceInLock_def waitForYield_def Let_def
        sized_def getKVStoreCount_def)
qed

theorem changeReplSource_detached_noop_witness:
  "sized mgr0 \<and> unat (0 :: u32) < getKVStoreCount mgr0 \<and> kv_isOpen (svr_stores mgr0 ! 0) \<and>
   syncFromHost (syncMeta mgr0 ! 0) = [] \<and> \<not> s_isRunning (syncStatus mgr0 ! 0) \<and>
   changeReplSource txn0 cenv_yield 0 [] 0 0 mgr0 =
     Inr (ERR_OK, mgr0\<lparr> connectMasterTimeoutMs := 1 \<rparr>)"
proof -
  have h: "ce_getDbX cenv_yield = ERR_OK" "ce_getDb cenv_yield = ERR_OK"
    "sized mgr0" "unat (0 :: u32) < getKVStoreCount mgr0"
    "kv_isOpen (svr_stores mgr0 ! unat (0 :: u32))"
    "syncFromHost (syncMeta mgr0 ! unat (0 :: u32)) = []"
    "\<not> s_isRunning (syncStatus mgr0 ! unat (0 :: u32)) \<or> ce_yield cenv_yield"
    by (simp_all add: cenv_yield_def mgr0_def kv0_def spov0_def meta0_def sized_def
        getKVStoreCount_def)
  have idle: "\<not> s_isRunning (syncStatus mgr0 ! unat (0 :: u32))"
    by (simp add: mgr0_def spov0_def)
  from changeReplSource_detached_noop [OF h, of txn0] idle
  have "changeReplSource txn0 cenv_yield 0 [] 0 0 mgr0 =
          Inr (ERR_OK, mgr0\<lparr> connectMasterTimeoutMs := 1 \<rparr>)"
    by blast
  with h idle show ?thesis by simp
qed

subsection \<open>changeReplSource: the assertion on the detach path\<close>

text \<open>
  C9 fails as stated: a detach of the attached store of \<open>mgr3\<close> with port 6379 returns a
  structured error, without aborting, when \<^verbatim>\<open>setStoreMode\<close> fails, when the wait times out
  and when either store lookup fails; all these returns come before the assertion.
\<close>

theorem changeReplSource_detach_counterexample:
  "map_sum id fst (changeReplSource txn0 cenv_mode 0 [] 6379 0 mgr3) = Inr ERR_INTERNAL \<and>
   map_sum id fst (changeReplSource txn0 cenv_busy 0 [] 6379 0 mgr3) = Inr ERR_TIMEOUT \<and>
   map_sum id fst (changeReplSource txn0 cenv_getdb 0 [] 6379 0 mgr3) = Inr ERR_INTERNAL \<and>
   map_sum id fst (changeReplSource txn0 cenv_lockx 0 [] 6379 0 mgr3) = Inr ERR_BUSY"
  by (simp add: changeReplSource_def changeReplSourceInLock_def waitForYield_def Let_def
      setStoreMode_def mgr3_def mgr0_def cenv_mode_def cenv_busy_def cenv_getdb_def
      cenv_lockx_def cenv_yield_def kv0_def spov0_def meta1_def meta0_def)

lemma waited_slot:
  assumes "i < length (syncStatus m)"
    and "\<not> s_isRunning (syncStatus m ! i) \<or> ce_yield env"
  shows "waitForYield env i (m\<lparr> connectMasterTimeoutMs := t \<rparr>) =
           Some (m\<lparr> connectMasterTimeoutMs := t,
                    syncStatus := (syncStatus m)[i := (syncStatus m ! i)\<lparr> s_isRunning := False \<rparr>] \<rparr>)"
proof (cases "s_isRunning (syncStatus m ! i)")
  case True
  with assms show ?thesis by (simp add: waitForYield_def)
next
  case False
  then have "(syncStatus m ! i)\<lparr> s_isRunning := False \<rparr> = syncStatus m ! i" by simp
  then have "(syncStatus m)[i := (syncStatus m ! i)\<lparr> s_isRunning := False \<rparr>] = syncStatus m"
    by (simp add: list_update_id)
  with False show ?thesis by (simp add: waitForYield_def)
qed

text \<open>
  C9, amended. For a detach (empty host) of an open store that is attached: every call
  that returns \<open>ERR_OK\<close> has port 0 and source store 0; a call with a nonzero port or a
  nonzero source store aborts at the assertion once the store lookups, the wait and
  \<^verbatim>\<open>setStoreMode\<close> have succeeded; and a call in which one of these earlier steps fails
  returns the error of that step, whatever the port and the source store are: the status
  of the first lookup, \<open>ERR_TIMEOUT\<close> from the wait, the status of the second lookup, the
  status of \<^verbatim>\<open>setStoreMode\<close>.
\<close>

theorem changeReplSource_detach_ports:
  assumes "unat storeId < length (svr_stores m)"
    and "kv_isOpen (svr_stores m ! unat storeId)"
    and "unat storeId < length (syncMeta m)"
    and "syncFromHost (syncMeta m ! unat storeId) \<noteq> []"
  shows "(\<forall>m'. changeReplSource T env storeId [] port sourceStoreId m = Inr (ERR_OK, m')
            \<longrightarrow> port = 0 \<and> sourceStoreId = 0) \<and>
         (ce_getDbX env = ERR_OK \<and> unat storeId < length (syncStatus m) \<and>
          (\<not> s_isRunning (syncStatus m ! unat storeId) \<or> ce_yield env) \<and>
          ce_getDb env = ERR_OK \<and> ce_setStoreMode env = ERR_OK \<and>
          (port \<noteq> 0 \<or> sourceStoreId \<noteq> 0) \<longrightarrow>
          changeReplSource T env storeId [] port sourceStoreId m = Inl INVARIANT_FAILED) \<and>
         (ce_getDbX env \<noteq> ERR_OK \<longrightarrow>
          changeReplSource T env storeId [] port sourceStoreId m = Inr (ce_getDbX env, m)) \<and>
         (ce_getDbX env = ERR_OK \<and> unat storeId < length (syncStatus m) \<and>
          s_isRunning (syncStatus m ! unat storeId) \<and> \<not> ce_yield env \<longrightarrow>
          changeReplSource T env storeId [] port sourceStoreId m =
            Inr (ERR_TIMEOUT, m\<lparr> connectMasterTimeoutMs := 1 \<rparr>)) \<and>
         (ce_getDbX env = ERR_OK \<and> unat storeId < length (syncStatus m) \<and>
          (\<not> s_isRunning (syncStatus m ! unat storeId) \<or> ce_yield env) \<and>
          ce_getDb env \<noteq> ERR_OK \<longrightarrow>
          changeReplSource T env storeId [] port sourceStoreId m =
            Inr (ce_getDb env,
                 m\<lparr> connectMasterTimeoutMs := 1,
                    syncStatus := (syncStatus m)[unat storeId :=
                      (syncStatus m ! unat storeId)\<lparr> s_isRunning := False \<rparr>] \<rparr>)) \<and>
         (ce_getDbX env = ERR_OK \<and> unat storeId < length (syncStatus m) \<and>
          (\<not> s_isRunning (syncStatus m ! unat storeId) \<or> ce_yield env) \<and>
          ce_getDb env = ERR_OK \<and> ce_setStoreMode env \<noteq> ERR_OK \<longrightarrow>
          changeReplSource T env storeId [] port sourceStoreId m =
            Inr (ce_setStoreMode env,
                 m\<lparr> connectMasterTimeoutMs := 1,
                    syncStatus := (syncStatus m)[unat storeId :=
                      (syncStatus m ! unat storeId)
                        \<lparr> s_isRunning := False, sessionId := uint64_max \<rparr>] \<rparr>))"
proof -
  let ?i = "unat storeId"
  let ?call = "changeReplSource T env storeId [] port sourceStoreId m"
  have ok: "port = 0 \<and> sourceStoreId = 0" if "?call = Inr (ERR_OK, m')" for m'
    using that assms
    by (auto simp: changeReplSource_def changeReplSourceInLock_def waitForYield_def Let_def
        setStoreMode_def split: if_splits sum.splits option.splits)
  have abort: "?call = Inl INVARIANT_FAILED"
    if "ce_getDbX env = ERR_OK" "?i < length (syncStatus m)"
      "\<not> s_isRunning (syncStatus m ! ?i) \<or> ce_yield env"
      "ce_getDb env = ERR_OK" "ce_setStoreMode env = ERR_OK"
      "port \<noteq> 0 \<or> sourceStoreId \<noteq> 0"
    using that assms
    by (auto simp: changeReplSource_def changeReplSourceInLock_def waitForYield_def Let_def
        setStoreMode_def split: if_splits sum.splits option.splits)
  have lockx: "?call = Inr (ce_getDbX env, m)" if "ce_getDbX env \<noteq> ERR_OK"
    using that by (simp add: changeReplSource_def)
  have timeout: "?call = Inr (ERR_TIMEOUT, m\<lparr> connectMasterTimeoutMs := 1 \<rparr>)"
    if "ce_getDbX env = ERR_OK" "?i < length (syncStatus m)"
      "s_isRunning (syncStatus m ! ?i)" "\<not> ce_yield env"
    using that assms
    by (simp add: changeReplSource_def changeReplSourceInLock_def waitForYield_def Let_def)
  have getdb: "?call = Inr (ce_getDb env,
                 m\<lparr> connectMasterTimeoutMs := 1,
                    syncStatus := (syncStatus m)[?i :=
                      (syncStatus m ! ?i)\<lparr> s_isRunning := False \<rparr>] \<rparr>)"
    if "ce_getDbX env = ERR_OK" "?i < length (syncStatus m)"
      "\<not> s_isRunning (syncStatus m ! ?i) \<or> ce_yield env" "ce_getDb env \<noteq> ERR_OK"
    using that assms waited_slot [OF that(2,3), of 1]
    by (simp add: changeReplSource_def changeReplSourceInLock_def Let_def)
  have mode: "?call = Inr (ce_setStoreMode env,
                 m\<lparr> connectMasterTimeoutMs := 1,
                    syncStatus := (syncStatus m)[?i :=
                      (syncStatus m ! ?i)
                        \<lparr> s_isRunning := False, sessionId := uint64_max \<rparr>] \<rparr>)"
    if "ce_getDbX env = ERR_OK" "?i < length (syncStatus m)"
      "\<not> s_isRunning (syncStatus m ! ?i) \<or> ce_yield env"
      "ce_getDb env = ERR_OK" "ce_setStoreMode env \<noteq> ERR_OK"
    using that assms waited_slot [OF that(2,3), of 1]
    by (simp add: changeReplSource_def changeReplSourceInLock_def Let_def setStoreMode_def)
  from ok abort lockx timeout getdb mode show ?thesis by blast
qed

theorem changeReplSource_detach_ports_witness:
  "unat (0 :: u32) < length (svr_stores mgr3) \<and> kv_isOpen (svr_stores mgr3 ! 0) \<and>
   syncFromHost (syncMeta mgr3 ! 0) \<noteq> [] \<and>
   changeReplSource txn0 cenv_yield 0 [] 6379 0 mgr3 = Inl INVARIANT_FAILED \<and>
   changeReplSource txn0 cenv_busy 0 [] 6379 0 mgr3 =
     Inr (ERR_TIMEOUT, mgr3\<lparr> connectMasterTimeoutMs := 1 \<rparr>) \<and>
   changeReplSource txn0 cenv_lockx 0 [] 6379 0 mgr3 = Inr (ERR_BUSY, mgr3) \<and>
   map_sum id fst (changeReplSource txn0 cenv_yield 0 [] 0 0 mgr3) = Inr ERR_OK"
proof -
  have h: "unat (0 :: u32) < length (svr_stores mgr3)"
    "kv_isOpen (svr_stores mgr3 ! unat (0 :: u32))"
    "unat (0 :: u32) < length (syncMeta mgr3)"
    "syncFromHost (syncMeta mgr3 ! unat (0 :: u32)) \<noteq> []"
    by (simp_all add: mgr3_def mgr0_def kv0_def meta1_def)
  have e: "ce_getDbX cenv_yield = ERR_OK" "unat (0 :: u32) < length (syncStatus mgr3)"
    "ce_yield cenv_yield" "ce_getDb cenv_yield = ERR_OK" "ce_setStoreMode cenv_yield = ERR_OK"
    by (simp_all add: cenv_yield_def mgr3_def mgr0_def)
  from changeReplSource_detach_ports [OF h, of txn0 cenv_yield 6379 0] e
  have a: "changeReplSource txn0 cenv_yield 0 [] 6379 0 mgr3 = Inl INVARIANT_FAILED"
    by simp
  have b: "ce_getDbX cenv_busy = ERR_OK" "s_isRunning (syncStatus mgr3 ! unat (0 :: u32))"
    "\<not> ce_yield cenv_busy"
    by (simp_all add: cenv_busy_def cenv_yield_def mgr3_def mgr0_def spov0_def)
  from changeReplSource_detach_ports [OF h, of txn0 cenv_busy 6379 0] b e(2)
  have t: "changeReplSource txn0 cenv_busy 0 [] 6379 0 mgr3 =
     Inr (ERR_TIMEOUT, mgr3\<lparr> connectMasterTimeoutMs := 1 \<rparr>)"
    by simp
  have x: "ce_getDbX cenv_lockx = ERR_BUSY"
    by (simp add: cenv_lockx_def cenv_yield_def)
  from changeReplSource_detach_ports [OF h, of txn0 cenv_lockx 6379 0] x
  have l: "changeReplSource txn0 cenv_lockx 0 [] 6379 0 mgr3 = Inr (ERR_BUSY, mgr3)"
    by simp
  have o: "map_sum id fst (changeReplSource txn0 cenv_yield 0 [] 0 0 mgr3) = Inr ERR_OK"
    by (simp add: changeReplSource_def changeReplSourceInLock_def waitForYield_def Let_def
        setStoreMode_def changeReplStateInLock_def mgr3_def mgr0_def cenv_yield_def kv0_def
        spov0_def meta1_def meta0_def)
  from a t l o h show ?thesis by simp
qed

subsection \<open>startup and maxDumpFileSeq\<close>

text \<open>
  The field that \<open>filenoField\<close> cuts out is the third dash-separated field of the name:
  the text between the second and the third dash, or after the second dash when there
  is no third.
\<close>

lemma fieldBounds_skip:
  "CHR ''-'' \<notin> set a \<Longrightarrow>
     fieldBounds (a @ rest) i first start e = fieldBounds rest (i + length a) first start e"
  by (induction a arbitrary: i) auto

lemma fieldBounds_three:
  assumes "CHR ''-'' \<notin> set a" "CHR ''-'' \<notin> set b" "CHR ''-'' \<notin> set c"
  shows "fieldBounds (a @ CHR ''-'' # b @ CHR ''-'' # c @ CHR ''-'' # d) 0 0 0 0 =
           (length a + length b + 2, length a + length b + length c + 2)"
  using assms by (simp add: fieldBounds_skip Let_def)

lemma fieldBounds_two:
  assumes "CHR ''-'' \<notin> set a" "CHR ''-'' \<notin> set b" "CHR ''-'' \<notin> set c"
  shows "fieldBounds (a @ CHR ''-'' # b @ CHR ''-'' # c) 0 0 0 0 =
           (length a + length b + 2, 0)"
  using assms fieldBounds_skip [of c "[]"] by (simp add: fieldBounds_skip Let_def)

lemma filenoField_three:
  assumes "CHR ''-'' \<notin> set a" "CHR ''-'' \<notin> set b" "CHR ''-'' \<notin> set c"
    and "length c < 2 ^ 64"
  shows "filenoField (a @ CHR ''-'' # b @ CHR ''-'' # c @ CHR ''-'' # d) = Some c"
proof -
  have "(length a + length b + length c + 2 + 2 ^ 64 - (length a + length b + 2)) mod 2 ^ 64
          = length c"
    using assms(4) by simp
  then show ?thesis
    using assms(1-3) by (simp add: filenoField_def fieldBounds_three substr_def)
qed

lemma filenoField_two:
  assumes "CHR ''-'' \<notin> set a" "CHR ''-'' \<notin> set b" "CHR ''-'' \<notin> set c"
    and "length (a @ CHR ''-'' # b @ CHR ''-'' # c) < 2 ^ 64"
  shows "filenoField (a @ CHR ''-'' # b @ CHR ''-'' # c) = Some c"
proof -
  let ?s = "length a + length b + 2"
  from assms(4) have lt: "?s + length c < 2 ^ 64" by simp
  then have "(0 + 2 ^ 64 - ?s) mod 2 ^ 64 = 2 ^ 64 - ?s"
    by simp
  moreover from lt have "length c \<le> 2 ^ 64 - ?s" by simp
  ultimately show ?thesis
    using assms(1-3) by (simp add: filenoField_def fieldBounds_two substr_def)
qed

lemma map_update_same: "(map f xs)[i := f (xs ! i)] = map f xs"
  by (cases "i < length xs") (simp_all add: list_update_same_conv list_update_beyond)

lemma setStoreMode_frame:
  "syncMeta (setStoreMode st i mode m) = syncMeta m"
  "syncStatus (setStoreMode st i mode m) = syncStatus m"
  "pushStatus (setStoreMode st i mode m) = pushStatus m"
  "fullPushStatus (setStoreMode st i mode m) = fullPushStatus m"
  "logRecycStatus (setStoreMode st i mode m) = logRecycStatus m"
  "svr_catalog (setStoreMode st i mode m) = svr_catalog m"
  "connectMasterTimeoutMs (setStoreMode st i mode m) = connectMasterTimeoutMs m"
  "length (svr_stores (setStoreMode st i mode m)) = length (svr_stores m)"
  "map kv_isOpen (svr_stores (setStoreMode st i mode m)) = map kv_isOpen (svr_stores m)"
  by (simp_all add: setStoreMode_def map_update map_update_same)

lemma startup_store_Inr:
  assumes "startup_store T stoul sb i m = Inr (Inr m')"
  shows "length (syncStatus m') = Suc (length (syncStatus m))"
    and "length (pushStatus m') = Suc (length (pushStatus m))"
    and "length (fullPushStatus m') = Suc (length (fullPushStatus m))"
    and "length (syncMeta m') = length (syncMeta m)"
    and "map replState (syncMeta m') = map replState (syncMeta m)"
    and "map meta_id (syncMeta m') = map meta_id (syncMeta m)"
    and "svr_catalog m' = svr_catalog m"
    and "connectMasterTimeoutMs m' = connectMasterTimeoutMs m"
    and "map kv_isOpen (svr_stores m') = map kv_isOpen (svr_stores m)"
    and "i < length (svr_stores m)"
    and "\<exists>rec. logRecycStatus m' = logRecycStatus m @ [rec] \<and>
           (kv_isOpen (svr_stores m ! i) \<longrightarrow>
              maxDumpFileSeq stoul (sb_dumpDir sb) = Inr (Inr (fileSeq rec)))"
  using assms
  by (auto simp: startup_store_def Let_def setStoreMode_frame map_update map_update_same
      split: if_splits sum.splits)

lemma startup_stores_Inr:
  assumes "startup_stores T stoul env is m = Inr (Inr m')"
  shows "length (syncStatus m') = length (syncStatus m) + length is \<and>
     length (pushStatus m') = length (pushStatus m) + length is \<and>
     length (fullPushStatus m') = length (fullPushStatus m) + length is \<and>
     length (syncMeta m') = length (syncMeta m) \<and>
     map replState (syncMeta m') = map replState (syncMeta m) \<and>
     map meta_id (syncMeta m') = map meta_id (syncMeta m) \<and>
     svr_catalog m' = svr_catalog m \<and>
     connectMasterTimeoutMs m' = connectMasterTimeoutMs m \<and>
     map kv_isOpen (svr_stores m') = map kv_isOpen (svr_stores m) \<and>
     (\<exists>recs. logRecycStatus m' = logRecycStatus m @ recs \<and>
        list_all2 (\<lambda>i rec. map kv_isOpen (svr_stores m) ! i \<longrightarrow>
            maxDumpFileSeq stoul (sb_dumpDir (su_store env i)) = Inr (Inr (fileSeq rec)))
          is recs)"
  using assms
proof (induction "is" arbitrary: m)
  case Nil
  then show ?case by simp
next
  case (Cons i "is")
  from Cons.prems obtain m1 where
    step: "startup_store T stoul (su_store env i) i m = Inr (Inr m1)"
    and rest: "startup_stores T stoul env is m1 = Inr (Inr m')"
    by (auto split: sum.splits)
  note s = startup_store_Inr [OF step]
  note r = Cons.IH [OF rest]
  from s(11) obtain rec where rec: "logRecycStatus m1 = logRecycStatus m @ [rec]"
    "kv_isOpen (svr_stores m ! i) \<longrightarrow>
       maxDumpFileSeq stoul (sb_dumpDir (su_store env i)) = Inr (Inr (fileSeq rec))"
    by blast
  from r obtain recs where recs: "logRecycStatus m' = logRecycStatus m1 @ recs"
    "list_all2 (\<lambda>i rec. map kv_isOpen (svr_stores m1) ! i \<longrightarrow>
        maxDumpFileSeq stoul (sb_dumpDir (su_store env i)) = Inr (Inr (fileSeq rec))) is recs"
    by blast
  have "logRecycStatus m' = logRecycStatus m @ (rec # recs)"
    using rec(1) recs(1) by simp
  moreover have "list_all2 (\<lambda>i rec. map kv_isOpen (svr_stores m) ! i \<longrightarrow>
        maxDumpFileSeq stoul (sb_dumpDir (su_store env i)) = Inr (Inr (fileSeq rec)))
        (i # is) (rec # recs)"
    using rec(2) recs(2) s(9) s(10) by simp
  ultimately have "\<exists>recs. logRecycStatus m' = logRecycStatus m @ recs \<and>
        list_all2 (\<lambda>i rec. map kv_isOpen (svr_stores m) ! i \<longrightarrow>
            maxDumpFileSeq stoul (sb_dumpDir (su_store env i)) = Inr (Inr (fileSeq rec)))
          (i # is) recs"
    by blast
  with r s(1-9) show ?case by simp
qed

lemma startup_metas_Inr:
  assumes "startup_metas T env is m = Inr m'"
  shows "svr_stores m' = svr_stores m \<and> syncStatus m' = syncStatus m \<and>
     pushStatus m' = pushStatus m \<and> fullPushStatus m' = fullPushStatus m \<and>
     logRecycStatus m' = logRecycStatus m \<and>
     connectMasterTimeoutMs m' = connectMasterTimeoutMs m \<and>
     length (syncMeta m') = length (syncMeta m) + length is \<and>
     (noTransfer m \<longrightarrow> noTransfer m')"
  using assms
proof (induction "is" arbitrary: m)
  case Nil
  then show ?case by simp
next
  case (Cons i "is")
  show ?case
  proof (cases "getStoreMeta env i m")
    case (Inr meta)
    with Cons.prems have rest:
      "startup_metas T env is (m\<lparr> syncMeta := syncMeta m @ [meta] \<rparr>) = Inr m'"
      by simp
    from Inr have "svr_catalog m i = Some meta"
      by (auto simp: getStoreMeta_def split: if_splits option.splits)
    then have "meta \<in> ran (svr_catalog m)" by (auto simp: ran_def)
    then have "noTransfer m \<longrightarrow> noTransfer (m\<lparr> syncMeta := syncMeta m @ [meta] \<rparr>)"
      by (auto simp: noTransfer_def)
    with Cons.IH [OF rest] show ?thesis by simp
  next
    case (Inl e)
    let ?p = "\<lparr> meta_id = of_nat i, syncFromHost = [], syncFromPort = 0,
                 syncFromId = - 1, binlogId = TXNID_UNINITED T,
                 replState = REPL_NONE \<rparr>"
    let ?m1 = "m\<lparr> svr_catalog := (svr_catalog m)(unat (meta_id ?p) \<mapsto> ?p),
                   syncMeta := syncMeta m @ [?p] \<rparr>"
    from Inl Cons.prems have rest: "startup_metas T env is ?m1 = Inr m'"
      by (auto simp: Let_def split: if_splits)
    have "noTransfer m \<longrightarrow> noTransfer ?m1"
      by (auto simp: noTransfer_def ran_def split: if_splits)
    with Cons.IH [OF rest] show ?thesis by simp
  qed
qed

lemma noTransfer_alt:
  "noTransfer m \<longleftrightarrow>
     REPL_TRANSFER \<notin> set (map replState (syncMeta m)) \<and>
     (\<forall>meta \<in> ran (svr_catalog m). replState meta \<noteq> REPL_TRANSFER)"
  by (auto simp: noTransfer_def image_iff)

lemma startup_Inr:
  assumes "startup T stoul env (ReplManager_new stores catalog) = Inr (Inr m')"
  shows "sized m'"
    and "map kv_isOpen (svr_stores m') = map kv_isOpen stores"
    and "connectMasterTimeoutMs m' = 1000"
    and "(\<forall>meta \<in> ran catalog. replState meta \<noteq> REPL_TRANSFER) \<Longrightarrow> noTransfer m'"
    and "\<And>i. i < length stores \<Longrightarrow> kv_isOpen (stores ! i) \<Longrightarrow>
           maxDumpFileSeq stoul (sb_dumpDir (su_store env i))
             = Inr (Inr (fileSeq (logRecycStatus m' ! i)))"
proof -
  let ?m0 = "ReplManager_new stores catalog"
  have n0: "getKVStoreCount ?m0 = length stores"
    by (simp add: getKVStoreCount_def ReplManager_new_def)
  from assms obtain m1 where
    metas: "startup_metas T env [0 ..< length stores] ?m0 = Inr m1"
    and stores: "startup_stores T stoul env [0 ..< getKVStoreCount m1] m1 = Inr (Inr m')"
    and len: "length (logRecycStatus m') = getKVStoreCount m'"
    by (auto simp: startup_def n0 split: sum.splits if_splits)
  note a = startup_metas_Inr [OF metas]
  note b = startup_stores_Inr [OF stores]
  have n1: "getKVStoreCount m1 = length stores"
    using a by (simp add: getKVStoreCount_def ReplManager_new_def)
  have opens: "map kv_isOpen (svr_stores m') = map kv_isOpen stores"
    using a b by (simp add: ReplManager_new_def)
  then have n': "getKVStoreCount m' = length stores"
    by (metis getKVStoreCount_def length_map)
  show "sized m'"
    using a b n1 n' len by (simp add: sized_def ReplManager_new_def)
  show "map kv_isOpen (svr_stores m') = map kv_isOpen stores" by (rule opens)
  show "connectMasterTimeoutMs m' = 1000"
    using a b by (simp add: ReplManager_new_def)
  show "noTransfer m'" if "\<forall>meta \<in> ran catalog. replState meta \<noteq> REPL_TRANSFER"
  proof -
    from that have "noTransfer ?m0" by (simp add: noTransfer_def ReplManager_new_def)
    with a have "noTransfer m1" by blast
    with b show ?thesis by (simp add: noTransfer_alt)
  qed
  show "maxDumpFileSeq stoul (sb_dumpDir (su_store env i))
          = Inr (Inr (fileSeq (logRecycStatus m' ! i)))"
    if "i < length stores" "kv_isOpen (stores ! i)" for i
  proof -
    from b obtain recs where recs: "logRecycStatus m' = logRecycStatus m1 @ recs"
      "list_all2 (\<lambda>i rec. map kv_isOpen (svr_stores m1) ! i \<longrightarrow>
            maxDumpFileSeq stoul (sb_dumpDir (su_store env i)) = Inr (Inr (fileSeq rec)))
          [0 ..< getKVStoreCount m1] recs"
      by blast
    have "logRecycStatus m1 = []" using a by (simp add: ReplManager_new_def)
    with recs(1) have eq: "logRecycStatus m' = recs" by simp
    have "svr_stores m1 = stores" using a by (simp add: ReplManager_new_def)
    with that have "map kv_isOpen (svr_stores m1) ! i" by simp
    moreover have "i < length [0 ..< getKVStoreCount m1]"
      using that(1) n1 by simp
    from list_all2_nthD [OF recs(2) this] have
      "map kv_isOpen (svr_stores m1) ! ([0 ..< getKVStoreCount m1] ! i) \<longrightarrow>
         maxDumpFileSeq stoul (sb_dumpDir (su_store env ([0 ..< getKVStoreCount m1] ! i)))
           = Inr (Inr (fileSeq (recs ! i)))" .
    ultimately show ?thesis using that(1) n1 eq by simp
  qed
qed

lemma uint32_max_numeral: "uint32_max = 4294967295"
  by (simp add: uint32_max_def)

lemma unat_ucast_up:
  fixes a :: u32
  shows "unat (ucast a :: u64) = unat a"
proof -
  have "unat a < 2 ^ 32" using unsigned_less [of a] by simp
  then have "unat a < 2 ^ 64" by simp
  then show ?thesis by (simp add: unsigned_ucast_eq take_bit_nat_eq_self)
qed

lemma ucast_up_mono:
  fixes a b :: u32
  shows "(ucast a :: u64) \<le> ucast b \<longleftrightarrow> a \<le> b"
  by (simp add: word_le_nat_alt unat_ucast_up)

lemma ucast_down_up:
  fixes fno :: u64
  assumes "\<not> fno \<ge> ucast uint32_max"
  shows "ucast (ucast fno :: u32) = fno"
proof -
  have "unat (ucast uint32_max :: u64) = 4294967295"
    by (simp add: unat_ucast_up uint32_max_numeral)
  with assms have lt: "unat fno < 2 ^ 32"
    by (simp add: word_le_nat_alt)
  then have "unat (ucast fno :: u32) = unat fno"
    by (simp add: unsigned_ucast_eq take_bit_nat_eq_self)
  then have "unat (ucast (ucast fno :: u32) :: u64) = unat fno"
    by (simp add: unat_ucast_up)
  then show ?thesis by (simp add: word_unat_eq_iff)
qed

lemma maxDumpFileSeq_loop_Inr:
  assumes "maxDumpFileSeq_loop stoul ps acc = Inr (Inr seq)"
  shows "acc \<le> seq \<and>
     (\<forall>p \<in> set ps. fst p \<longrightarrow>
        (\<exists>fno. parsedFileno stoul (snd p) = Some fno \<and> fno \<le> ucast seq)) \<and>
     (seq = acc \<or> (\<exists>p \<in> set ps. fst p \<and> parsedFileno stoul (snd p) = Some (ucast seq)))"
  using assms
proof (induction ps arbitrary: acc)
  case Nil
  then show ?case by simp
next
  case (Cons p ps)
  show ?case
  proof (cases "fst p")
    case False
    with Cons.prems have "maxDumpFileSeq_loop stoul ps acc = Inr (Inr seq)" by simp
    from Cons.IH [OF this] False show ?thesis by auto
  next
    case True
    with Cons.prems obtain field fno where
      f: "filenoField (snd p) = Some field" "stoul field = Inr fno"
      and small: "\<not> fno \<ge> ucast uint32_max"
      and rest: "maxDumpFileSeq_loop stoul ps (max acc (ucast fno)) = Inr (Inr seq)"
      by (auto split: option.splits sum.splits if_splits)
    from f have parsed: "parsedFileno stoul (snd p) = Some fno"
      by (simp add: parsedFileno_def)
    note ih = Cons.IH [OF rest]
    from ih have le: "acc \<le> seq" "(ucast fno :: u32) \<le> seq" by simp_all
    from le(2) have "(ucast (ucast fno :: u32) :: u64) \<le> ucast seq"
      by (simp add: ucast_up_mono)
    then have here: "fno \<le> ucast seq"
      by (simp add: ucast_down_up [OF small])
    have attained: "seq = acc \<or>
        (\<exists>q \<in> set (p # ps). fst q \<and> parsedFileno stoul (snd q) = Some (ucast seq))"
    proof (cases "seq = max acc (ucast fno)")
      case False
      with ih show ?thesis by auto
    next
      case eq: True
      show ?thesis
      proof (cases "seq = acc")
        case True then show ?thesis by simp
      next
        case False
        with eq have "seq = ucast fno" by (simp add: max_def split: if_splits)
        then have "ucast seq = fno" by (simp add: ucast_down_up [OF small])
        with parsed True show ?thesis by auto
      qed
    qed
    from ih le here parsed attained True show ?thesis by auto
  qed
qed

lemma maxDumpFileSeq_Inr:
  assumes "maxDumpFileSeq stoul dir = Inr (Inr seq)"
  shows "\<exists>ps. dd_entries dir = Some ps \<and>
     (\<forall>p \<in> set ps. fst p \<longrightarrow>
        (\<exists>fno. parsedFileno stoul (snd p) = Some fno \<and> fno \<le> ucast seq)) \<and>
     (seq = 0 \<or> (\<exists>p \<in> set ps. fst p \<and> parsedFileno stoul (snd p) = Some (ucast seq)))"
  using assms
  by (auto simp: maxDumpFileSeq_def split: if_splits option.splits
      dest!: maxDumpFileSeq_loop_Inr)

lemma startup_mgrS:
  "startup txn0 stoul_decimal senv0 (ReplManager_new [kv0] Map.empty) = Inr (Inr mgrS)"
  by (simp add: startup_def startup_store_def getStoreMeta_def getKVStoreCount_def
      ReplManager_new_def senv0_def sboot0_def dir0_def kv0_def meta0_def txn0_def mgrS_def
      setStoreMode_def maxDumpFileSeq_def filenoField_def substr_def stoul_decimal_def
      digitValue_def uint32_max_numeral Let_def)

text \<open>
  C6 fails as stated: after the start on the directory \<open>dir0\<close>, whose files carry the
  numbers 5 and 3, the recycle slot of the open store 0 has \<open>fileSeq\<close> 5, which is not
  greater than the 5 parsed from the first file.
\<close>

theorem startup_fileSeq_counterexample:
  "map_sum id (map_sum id (\<lambda>m. fileSeq (logRecycStatus m ! 0)))
     (startup txn0 stoul_decimal senv0 (ReplManager_new [kv0] Map.empty)) = Inr (Inr 5) \<and>
   kv_isOpen kv0 \<and>
   (True, ''binlog-0-0000005-20200101.log'')
     \<in> set (the (dd_entries (sb_dumpDir (su_store senv0 0)))) \<and>
   parsedFileno stoul_decimal ''binlog-0-0000005-20200101.log'' = Some 5 \<and>
   \<not> (5 :: u64) < ucast (5 :: u32)"
proof -
  have "map_sum id (map_sum id (\<lambda>m. fileSeq (logRecycStatus m ! 0)))
     (startup txn0 stoul_decimal senv0 (ReplManager_new [kv0] Map.empty)) = Inr (Inr 5)"
    by (simp add: startup_mgrS mgrS_def)
  moreover have "kv_isOpen kv0"
    by (simp add: kv0_def)
  moreover have "(True, ''binlog-0-0000005-20200101.log'')
      \<in> set (the (dd_entries (sb_dumpDir (su_store senv0 0))))"
    by (simp add: senv0_def sboot0_def dir0_def)
  moreover have "parsedFileno stoul_decimal ''binlog-0-0000005-20200101.log'' = Some 5"
    by (simp add: parsedFileno_def filenoField_def substr_def stoul_decimal_def
        digitValue_def Let_def)
  moreover have "\<not> (5 :: u64) < ucast (5 :: u32)"
    by simp
  ultimately show ?thesis by blast
qed

text \<open>
  C6, amended. After a successful start, for every open store \<open>i\<close>, the \<open>fileSeq\<close> seeded in
  its recycle slot is the result of \<open>maxDumpFileSeq\<close> on the store's dump directory: every
  regular file under the directory has a parsed number, none of them exceeds \<open>fileSeq\<close>,
  and \<open>fileSeq\<close> is the number of one of the files, or 0; it is 0 when the directory has
  no regular file. So \<open>fileSeq\<close> is the largest parsed number, not a number above it.
\<close>

theorem startup_fileSeq_max:
  assumes "startup T stoul env (ReplManager_new stores catalog) = Inr (Inr m)"
    and "i < length stores" and "kv_isOpen (stores ! i)"
  shows "\<exists>ps. dd_entries (sb_dumpDir (su_store env i)) = Some ps \<and>
     maxDumpFileSeq stoul (sb_dumpDir (su_store env i))
       = Inr (Inr (fileSeq (logRecycStatus m ! i))) \<and>
     (\<forall>p \<in> set ps. fst p \<longrightarrow>
        (\<exists>fno. parsedFileno stoul (snd p) = Some fno \<and>
               fno \<le> ucast (fileSeq (logRecycStatus m ! i)))) \<and>
     (fileSeq (logRecycStatus m ! i) = 0 \<or>
        (\<exists>p \<in> set ps. fst p \<and>
           parsedFileno stoul (snd p) = Some (ucast (fileSeq (logRecycStatus m ! i))))) \<and>
     ((\<forall>p \<in> set ps. \<not> fst p) \<longrightarrow> fileSeq (logRecycStatus m ! i) = 0)"
proof -
  have seq: "maxDumpFileSeq stoul (sb_dumpDir (su_store env i))
      = Inr (Inr (fileSeq (logRecycStatus m ! i)))"
    using startup_Inr(5) [OF assms] .
  from maxDumpFileSeq_Inr [OF seq] seq show ?thesis by blast
qed

theorem startup_fileSeq_max_witness:
  "startup txn0 stoul_decimal senv0 (ReplManager_new [kv0] Map.empty) = Inr (Inr mgrS) \<and>
   (0 :: nat) < length [kv0] \<and> kv_isOpen ([kv0] ! 0) \<and>
   fileSeq (logRecycStatus mgrS ! 0) = 5 \<and>
   maxDumpFileSeq stoul_decimal dir0 = Inr (Inr 5)"
proof -
  have h: "(0 :: nat) < length [kv0]" "kv_isOpen ([kv0] ! 0)"
    by (simp_all add: kv0_def)
  from startup_fileSeq_max [OF startup_mgrS h]
  have "maxDumpFileSeq stoul_decimal (sb_dumpDir (su_store senv0 0))
          = Inr (Inr (fileSeq (logRecycStatus mgrS ! 0)))"
    by blast
  then have "maxDumpFileSeq stoul_decimal dir0 = Inr (Inr 5)"
    by (simp add: senv0_def sboot0_def mgrS_def)
  with startup_mgrS h show ?thesis by (simp add: mgrS_def)
qed

subsection \<open>The controller and the transfer state\<close>

lemma schedSlave_step_Inr:
  "schedSlave_step now i p = Inr p' \<Longrightarrow> same_meta (mgr p) (mgr p')"
  by (auto simp: schedSlave_step_def Let_def same_meta_def split: if_splits)

lemma schedSlave_loop_Inr:
  "schedSlave_loop now is p = Inr p' \<Longrightarrow> same_meta (mgr p) (mgr p')"
proof (induction "is" arbitrary: p)
  case Nil
  then show ?case by (simp add: same_meta_def)
next
  case (Cons i "is")
  then obtain p1 where "schedSlave_step now i p = Inr p1" "schedSlave_loop now is p1 = Inr p'"
    by (auto split: sum.splits)
  with Cons.IH [of p1] schedSlave_step_Inr [of now i p p1] show ?case
    by (simp add: same_meta_def)
qed

lemma schedSlave_step_defined:
  assumes "i < length (syncStatus (mgr p))" "i < length (syncMeta (mgr p))"
    and "replState (syncMeta (mgr p) ! i) \<noteq> REPL_TRANSFER"
  shows "\<exists>p'. schedSlave_step now i p = Inr p'"
  using assms by (simp add: schedSlave_step_def Let_def)

lemma schedSlave_loop_defined:
  assumes "\<forall>i \<in> set is. i < length (syncStatus (mgr p)) \<and> i < length (syncMeta (mgr p))"
    and "\<forall>meta \<in> set (syncMeta (mgr p)). replState meta \<noteq> REPL_TRANSFER"
  shows "\<exists>p'. schedSlave_loop now is p = Inr p'"
  using assms
proof (induction "is" arbitrary: p)
  case Nil
  then show ?case by simp
next
  case (Cons i "is")
  from Cons.prems have "\<exists>p1. schedSlave_step now i p = Inr p1"
    by (intro schedSlave_step_defined) auto
  then obtain p1 where p1: "schedSlave_step now i p = Inr p1" by blast
  from schedSlave_step_Inr [OF p1] Cons.prems
  have "\<exists>p'. schedSlave_loop now is p1 = Inr p'"
    by (intro Cons.IH) (auto simp: same_meta_def)
  with p1 show ?case by simp
qed

lemma schedMaster_loop_result:
  "(\<exists>p'. schedMaster_loop now is p = Inr p' \<and> same_meta (mgr p) (mgr p') \<and>
       syncStatus (mgr p') = syncStatus (mgr p)) \<or>
   schedMaster_loop now is p = Inl UNDEFINED_BEHAVIOUR"
proof (induction "is" arbitrary: p)
  case Nil
  then show ?case by (simp add: same_meta_def)
next
  case (Cons i "is")
  show ?case
  proof (cases "i < length (pushStatus (mgr p))")
    case False
    then show ?thesis by (simp add: Let_def)
  next
    case True
    obtain d js mp' where sm: "schedMaster_map now i (pushStatus (mgr p) ! i) = (d, js, mp')"
      by (cases "schedMaster_map now i (pushStatus (mgr p) ! i)") auto
    let ?p1 = "p\<lparr> doSth := doSth p \<or> d, jobs := jobs p @ js,
              mgr := (mgr p)\<lparr> pushStatus := (pushStatus (mgr p))[i := mp'] \<rparr> \<rparr>"
    have eq: "schedMaster_loop now (i # is) p = schedMaster_loop now is ?p1"
      using True sm by (simp add: Let_def)
    from Cons.IH [of ?p1] show ?thesis
      unfolding eq by (auto simp: same_meta_def)
  qed
qed

lemma schedRecycLog_loop_result:
  "(\<exists>p'. schedRecycLog_loop now is p = Inr p' \<and> same_meta (mgr p) (mgr p') \<and>
       syncStatus (mgr p') = syncStatus (mgr p)) \<or>
   schedRecycLog_loop now is p = Inl UNDEFINED_BEHAVIOUR"
proof (induction "is" arbitrary: p)
  case Nil
  then show ?case by (simp add: same_meta_def)
next
  case (Cons i "is")
  show ?case
  proof (cases "i < length (logRecycStatus (mgr p))")
    case False
    then show ?thesis by (simp add: Let_def)
  next
    case True
    let ?v = "logRecycStatus (mgr p) ! i"
    let ?p1 = "p\<lparr> doSth := True, jobs := jobs p @ [recycleBinlogJob i],
              mgr := (mgr p)\<lparr> logRecycStatus := (logRecycStatus (mgr p))
                  [i := ?v\<lparr> r_isRunning := True \<rparr>] \<rparr> \<rparr>"
    show ?thesis
    proof (cases "r_isRunning ?v \<or> now < r_nextSchedTime ?v")
      case skip: True
      then have "schedRecycLog_loop now (i # is) p = schedRecycLog_loop now is p"
        using True by (auto simp: Let_def)
      with Cons.IH [of p] show ?thesis by simp
    next
      case False
      then have eq: "schedRecycLog_loop now (i # is) p = schedRecycLog_loop now is ?p1"
        using True by (auto simp: Let_def)
      from Cons.IH [of ?p1] show ?thesis
        unfolding eq by (auto simp: same_meta_def)
    qed
  qed
qed

lemma same_meta_inv:
  "same_meta m m' \<Longrightarrow> sized m \<Longrightarrow> sized m'"
  "same_meta m m' \<Longrightarrow> noTransfer m \<Longrightarrow> noTransfer m'"
  by (simp_all add: same_meta_def sized_def noTransfer_def getKVStoreCount_def)

lemma same_meta_trans: "same_meta a b \<Longrightarrow> same_meta b c \<Longrightarrow> same_meta a c"
  by (simp add: same_meta_def)

lemma schedMasterInLock_result:
  "(\<exists>p'. schedMasterInLock now now' m = Inr p' \<and> same_meta m (mgr p')) \<or>
   schedMasterInLock now now' m = Inl UNDEFINED_BEHAVIOUR"
proof (cases "recycleFullPushStatus now' m")
  case (Inl a)
  then have "a = UNDEFINED_BEHAVIOUR"
    by (rule recycleFullPushStatus_Inl)
  with Inl show ?thesis by (simp add: schedMasterInLock_def)
next
  case (Inr m1)
  then have "m1 = m" by (rule recycleFullPushStatus_Inr)
  with Inr schedMaster_loop_result [of now "[0 ..< length (pushStatus m)]"
      "\<lparr> doSth = False, jobs = [], mgr = m \<rparr>"]
  show ?thesis by (auto simp: schedMasterInLock_def)
qed

lemma controlPass_Inr:
  assumes "controlPass now now' m = Inr p"
  shows "same_meta m (mgr p)"
proof -
  from assms obtain p1 p2 p3 where
    1: "schedSlaveInLock now m = Inr p1"
    and 2: "schedMasterInLock now now' (mgr p1) = Inr p2"
    and 3: "schedRecycLogInLock now (mgr p2) = Inr p3"
    and p: "mgr p = mgr p3"
    by (auto simp: controlPass_def split: sum.splits)
  from 1 have a: "same_meta m (mgr p1)"
    using schedSlave_loop_Inr [of now _ "\<lparr> doSth = False, jobs = [], mgr = m \<rparr>" p1]
    by (simp add: schedSlaveInLock_def)
  from 2 schedMasterInLock_result [of now now' "mgr p1"]
  have b: "same_meta (mgr p1) (mgr p2)" by auto
  from 3 schedRecycLog_loop_result [of now "[0 ..< length (logRecycStatus (mgr p2))]"
      "\<lparr> doSth = False, jobs = [], mgr = mgr p2 \<rparr>"]
  have c: "same_meta (mgr p2) (mgr p3)"
    by (auto simp: schedRecycLogInLock_def)
  from a b c p show ?thesis by (metis same_meta_trans)
qed

lemma schedSlaveInLock_defined:
  assumes "sized m" "noTransfer m"
  shows "\<exists>p. schedSlaveInLock now m = Inr p"
  unfolding schedSlaveInLock_def
  using assms
  by (intro schedSlave_loop_defined) (auto simp: sized_def noTransfer_def)

lemma controlPass_not_fatal:
  assumes "sized m" "noTransfer m"
  shows "controlPass now now' m \<noteq> Inl LOG_FATAL"
proof -
  from schedSlaveInLock_defined [OF assms] obtain p1 where
    1: "schedSlaveInLock now m = Inr p1" by blast
  show ?thesis
  proof (cases "schedMasterInLock now now' (mgr p1)")
    case (Inl a)
    with schedMasterInLock_result [of now now' "mgr p1"] 1 show ?thesis
      by (auto simp: controlPass_def)
  next
    case (Inr p2)
    show ?thesis
    proof (cases "schedRecycLogInLock now (mgr p2)")
      case (Inl a)
      with schedRecycLog_loop_result [of now "[0 ..< length (logRecycStatus (mgr p2))]"
          "\<lparr> doSth = False, jobs = [], mgr = mgr p2 \<rparr>"]
      have "a = UNDEFINED_BEHAVIOUR" by (auto simp: schedRecycLogInLock_def)
      with Inl Inr 1 show ?thesis by (simp add: controlPass_def)
    next
      case (Inr p3)
      with \<open>schedMasterInLock now now' (mgr p1) = Inr p2\<close> 1 show ?thesis
        by (simp add: controlPass_def)
    qed
  qed
qed

lemma set_update_all:
  "\<forall>x \<in> set xs. P x \<Longrightarrow> P y \<Longrightarrow> \<forall>x \<in> set (xs[i := y]). P x"
  using set_update_subset_insert [of xs i y] by auto

lemma ran_upd_all:
  "\<forall>x \<in> ran c. P x \<Longrightarrow> P v \<Longrightarrow> \<forall>x \<in> ran (c(k \<mapsto> v)). P x"
  by (auto simp: ran_def split: if_splits)

lemma changeReplStateInLock_inv:
  assumes "changeReplStateInLock st meta persist m = Inr m'"
    and "replState meta \<noteq> REPL_TRANSFER"
  shows "sized m \<Longrightarrow> sized m'" and "noTransfer m \<Longrightarrow> noTransfer m'"
proof -
  from assms(1) have m': "syncMeta m' = (syncMeta m)[unat (meta_id meta) := meta]"
    "svr_catalog m' = svr_catalog m \<or>
     svr_catalog m' = (svr_catalog m)(unat (meta_id meta) \<mapsto> meta)"
    "svr_stores m' = svr_stores m" "syncStatus m' = syncStatus m"
    "pushStatus m' = pushStatus m" "fullPushStatus m' = fullPushStatus m"
    "logRecycStatus m' = logRecycStatus m"
    by (auto simp: changeReplStateInLock_def split: if_splits)
  show "sized m'" if "sized m"
    using that m' by (simp add: sized_def getKVStoreCount_def)
  show "noTransfer m'" if "noTransfer m"
    unfolding noTransfer_def
  proof
    show "\<forall>x \<in> set (syncMeta m'). replState x \<noteq> REPL_TRANSFER"
      unfolding m'(1) using that assms(2) by (intro set_update_all) (simp_all add: noTransfer_def)
    show "\<forall>x \<in> ran (svr_catalog m'). replState x \<noteq> REPL_TRANSFER"
      using m'(2)
    proof
      assume "svr_catalog m' = svr_catalog m"
      with that show ?thesis by (simp add: noTransfer_def)
    next
      assume c: "svr_catalog m' = (svr_catalog m)(unat (meta_id meta) \<mapsto> meta)"
      show ?thesis
        unfolding c using that assms(2) by (intro ran_upd_all) (simp_all add: noTransfer_def)
    qed
  qed
qed

lemma changeReplStateInLock_inv2:
  assumes "changeReplStateInLock st meta persist m = Inr m'"
    and "replState meta \<noteq> REPL_TRANSFER"
  shows "(sized m \<longrightarrow> sized m') \<and> (noTransfer m \<longrightarrow> noTransfer m')"
  using changeReplStateInLock_inv [OF assms] by blast

lemma setStoreMode_inv:
  "sized (setStoreMode st i mode m) = sized m"
  "noTransfer (setStoreMode st i mode m) = noTransfer m"
  by (simp_all add: sized_def noTransfer_def getKVStoreCount_def setStoreMode_frame)

lemma changeReplSourceInLock_inv:
  assumes "changeReplSourceInLock T env storeId ip port sourceStoreId m = Inr (st, m')"
    and "sized m" "noTransfer m"
  shows "sized m' \<and> noTransfer m'"
proof -
  have upd: "sized (m\<lparr> connectMasterTimeoutMs := t \<rparr>) = sized m"
    "noTransfer (m\<lparr> connectMasterTimeoutMs := t \<rparr>) = noTransfer m" for m t
    by (simp_all add: sized_def noTransfer_def getKVStoreCount_def)
  have upd2: "sized (m\<lparr> syncStatus := (syncStatus m)[i := x] \<rparr>) = sized m"
    "noTransfer (m\<lparr> syncStatus := (syncStatus m)[i := x] \<rparr>) = noTransfer m" for m i x
    by (simp_all add: sized_def noTransfer_def getKVStoreCount_def)
  have upd3: "sized (m\<lparr> connectMasterTimeoutMs := t,
                        syncStatus := (syncStatus m)[i := x] \<rparr>) = sized m"
    "noTransfer (m\<lparr> connectMasterTimeoutMs := t,
                        syncStatus := (syncStatus m)[i := x] \<rparr>) = noTransfer m" for m t i x
    by (simp_all add: sized_def noTransfer_def getKVStoreCount_def)
  from assms show ?thesis
    by (auto simp: changeReplSourceInLock_def Let_def waitForYield_def upd upd2 upd3
        setStoreMode_inv
        split: if_splits option.splits sum.splits
        dest!: changeReplStateInLock_inv2)
qed

lemma changeReplSource_inv:
  assumes "changeReplSource T env storeId ip port sourceStoreId m = Inr (st, m')"
    and "sized m" "noTransfer m"
  shows "sized m' \<and> noTransfer m'"
  using assms
  by (auto simp: changeReplSource_def split: if_splits sum.splits prod.splits
      dest: changeReplSourceInLock_inv)

lemma stopStore_inv:
  assumes "stopStore storeId m = Inr (st, m')" and "sized m" "noTransfer m"
  shows "sized m' \<and> noTransfer m'"
  using assms
  by (auto simp: stopStore_def Let_def sized_def noTransfer_def getKVStoreCount_def
      split: if_splits)

lemma reachable_inv:
  assumes "reachable T stoul catalog0 m"
    and "\<forall>meta \<in> ran catalog0. replState meta \<noteq> REPL_TRANSFER"
  shows "sized m \<and> noTransfer m"
  using assms
proof (induction rule: reachable.induct)
  case (started env stores m)
  from startup_Inr(1) [OF started(1)] startup_Inr(4) [OF started(1)] started(2)
  show ?case by blast
next
  case (restarted m env stores m')
  from restarted have "\<forall>meta \<in> ran (svr_catalog m). replState meta \<noteq> REPL_TRANSFER"
    by (simp add: noTransfer_def)
  with startup_Inr(1) [OF restarted(2)] startup_Inr(4) [OF restarted(2)]
  show ?case by blast
next
  case (changed m cenv storeId ip port sourceStoreId status m')
  then show ?case using changeReplSource_inv by blast
next
  case (stopped m storeId status m')
  then show ?case using stopStore_inv by blast
next
  case (passed m now now' p)
  from controlPass_Inr [OF passed(2)] passed show ?case
    using same_meta_inv by blast
qed

lemma attach_mgrS:
  "changeReplSource txn0 cenv_yield 0 ''10.0.0.5'' 6379 2 mgrS = Inr (ERR_OK, mgrA)"
  by (simp add: changeReplSource_def changeReplSourceInLock_def waitForYield_def Let_def
      setStoreMode_def changeReplStateInLock_def mgrS_def mgrA_def metaA_def meta0_def
      cenv_yield_def kv0_def txn0_def)

lemma reachable_mgrA: "reachable txn0 stoul_decimal Map.empty mgrA"
  by (rule reachable.changed [OF reachable.started [OF startup_mgrS] attach_mgrS])

lemma startup_mgrT:
  "startup txn0 stoul_decimal senv0 (ReplManager_new [kv0] [0 \<mapsto> metaT]) = Inr (Inr mgrT)"
  by (simp add: startup_def startup_store_def getStoreMeta_def getKVStoreCount_def
      ReplManager_new_def senv0_def sboot0_def dir0_def kv0_def metaT_def meta1_def meta0_def
      txn0_def mgrT_def mgrS_def setStoreMode_def maxDumpFileSeq_def filenoField_def
      substr_def stoul_decimal_def digitValue_def uint32_max_numeral Let_def)

lemma startup_mgrC:
  "startup txn0 stoul_decimal senv0 (ReplManager_new [kv0] [0 \<mapsto> meta1]) = Inr (Inr mgrC)"
  by (simp add: startup_def startup_store_def getStoreMeta_def getKVStoreCount_def
      ReplManager_new_def senv0_def sboot0_def dir0_def kv0_def meta1_def meta0_def
      txn0_def mgrC_def mgrS_def setStoreMode_def maxDumpFileSeq_def filenoField_def
      substr_def stoul_decimal_def digitValue_def uint32_max_numeral Let_def)

text \<open>
  C7 fails as stated: a start on a catalog that holds the metadata of store 0 in state
  \<open>REPL_TRANSFER\<close> succeeds and keeps that state; the slave slot of the store is idle and
  due, and the first pass of the controller ends in the fatal branch.
\<close>

theorem controller_sees_transfer_counterexample:
  "reachable txn0 stoul_decimal [0 \<mapsto> metaT] mgrT \<and>
   \<not> s_isRunning (syncStatus mgrT ! 0) \<and> \<not> 2000 < s_nextSchedTime (syncStatus mgrT ! 0) \<and>
   replState (syncMeta mgrT ! 0) = REPL_TRANSFER \<and>
   schedSlaveInLock 2000 mgrT = Inl LOG_FATAL \<and>
   controlPass 2000 2000 mgrT = Inl LOG_FATAL"
proof -
  have r: "reachable txn0 stoul_decimal [0 \<mapsto> metaT] mgrT"
    by (rule reachable.started [OF startup_mgrT])
  have s: "schedSlaveInLock 2000 mgrT = Inl LOG_FATAL"
    by (simp add: schedSlaveInLock_def schedSlave_step_def Let_def mgrT_def mgrS_def
        metaT_def meta1_def)
  then have c: "controlPass 2000 2000 mgrT = Inl LOG_FATAL"
    by (simp add: controlPass_def)
  have "\<not> s_isRunning (syncStatus mgrT ! 0)" "\<not> 2000 < s_nextSchedTime (syncStatus mgrT ! 0)"
    "replState (syncMeta mgrT ! 0) = REPL_TRANSFER"
    by (simp_all add: mgrT_def mgrS_def metaT_def)
  with r s c show ?thesis by blast
qed

text \<open>
  C7, amended. On a node whose catalog holds no metadata in state \<open>REPL_TRANSFER\<close> at the
  first start, every manager reachable through \<open>startup\<close>, \<open>changeReplSource\<close>, \<open>stopStore\<close> and
  passes of the controller has no store in state \<open>REPL_TRANSFER\<close>; so no slave slot that
  a pass inspects (idle, due, not \<open>REPL_NONE\<close>) shows that state, the slave scheduling
  returns, and a pass never ends in the fatal branch.
\<close>

theorem controller_never_sees_transfer:
  assumes "reachable T stoul catalog0 m"
    and "\<forall>meta \<in> ran catalog0. replState meta \<noteq> REPL_TRANSFER"
  shows "(\<forall>i < length (syncStatus m).
            \<not> s_isRunning (syncStatus m ! i) \<and> \<not> now < s_nextSchedTime (syncStatus m ! i) \<and>
            replState (syncMeta m ! i) \<noteq> REPL_NONE \<longrightarrow>
              replState (syncMeta m ! i) \<noteq> REPL_TRANSFER) \<and>
         (\<forall>meta \<in> set (syncMeta m). replState meta \<noteq> REPL_TRANSFER) \<and>
         (\<exists>p. schedSlaveInLock now m = Inr p) \<and>
         controlPass now now' m \<noteq> Inl LOG_FATAL"
proof -
  from reachable_inv [OF assms] have inv: "sized m" "noTransfer m" by simp_all
  from inv have "\<forall>i < length (syncStatus m). replState (syncMeta m ! i) \<noteq> REPL_TRANSFER"
    by (simp add: sized_def noTransfer_def)
  with inv schedSlaveInLock_defined [OF inv] controlPass_not_fatal [OF inv]
  show ?thesis by (simp add: noTransfer_def)
qed

theorem controller_never_sees_transfer_witness:
  "reachable txn0 stoul_decimal Map.empty mgrA \<and>
   replState (syncMeta mgrA ! 0) = REPL_CONNECT \<and>
   schedSlaveInLock 2000 mgrA =
     Inr \<lparr> doSth = True, jobs = [slaveSyncRoutine fullReceiver 0],
           mgr = mgrA\<lparr> syncStatus := [(syncStatus mgrA ! 0)\<lparr> s_isRunning := True \<rparr>] \<rparr> \<rparr> \<and>
   controlPass 2000 2000 mgrA \<noteq> Inl LOG_FATAL \<and>
   reachable txn0 stoul_decimal [0 \<mapsto> meta1] mgrC \<and>
   replState (syncMeta mgrC ! 0) = REPL_CONNECTED \<and>
   schedSlaveInLock 2000 mgrC =
     Inr \<lparr> doSth = True, jobs = [slaveSyncRoutine incrChecker 0],
           mgr = mgrC\<lparr> syncStatus := [(syncStatus mgrC ! 0)\<lparr> s_isRunning := True \<rparr>] \<rparr> \<rparr> \<and>
   controlPass 2000 2000 mgrC \<noteq> Inl LOG_FATAL"
proof -
  have c: "\<forall>meta \<in> ran (Map.empty :: nat \<rightharpoonup> StoreMeta). replState meta \<noteq> REPL_TRANSFER"
    by simp
  from controller_never_sees_transfer [OF reachable_mgrA c, of 2000 2000]
  have a1: "controlPass 2000 2000 mgrA \<noteq> Inl LOG_FATAL" by blast
  have a2: "schedSlaveInLock 2000 mgrA =
     Inr \<lparr> doSth = True, jobs = [slaveSyncRoutine fullReceiver 0],
           mgr = mgrA\<lparr> syncStatus := [(syncStatus mgrA ! 0)\<lparr> s_isRunning := True \<rparr>] \<rparr> \<rparr>"
    by (simp add: schedSlaveInLock_def schedSlave_step_def Let_def mgrA_def mgrS_def metaA_def)
  have a3: "replState (syncMeta mgrA ! 0) = REPL_CONNECT"
    by (simp add: mgrA_def metaA_def)
  have rc: "reachable txn0 stoul_decimal [0 \<mapsto> meta1] mgrC"
    by (rule reachable.started [OF startup_mgrC])
  have cc: "\<forall>meta \<in> ran [(0 :: nat) \<mapsto> meta1]. replState meta \<noteq> REPL_TRANSFER"
    by (simp add: meta1_def)
  from controller_never_sees_transfer [OF rc cc, of 2000 2000]
  have b1: "controlPass 2000 2000 mgrC \<noteq> Inl LOG_FATAL" by blast
  have b2: "schedSlaveInLock 2000 mgrC =
     Inr \<lparr> doSth = True, jobs = [slaveSyncRoutine incrChecker 0],
           mgr = mgrC\<lparr> syncStatus := [(syncStatus mgrC ! 0)\<lparr> s_isRunning := True \<rparr>] \<rparr> \<rparr>"
    by (simp add: schedSlaveInLock_def schedSlave_step_def Let_def mgrC_def mgrS_def meta1_def)
  have b3: "replState (syncMeta mgrC ! 0) = REPL_CONNECTED"
    by (simp add: mgrC_def meta1_def)
  from a1 a2 a3 b1 b2 b3 rc reachable_mgrA show ?thesis by blast
qed

end
